theory Spec2Isabelle
  imports Complex_Main "HOL-Library.Multiset"
begin

section \<open>Strings as the program reads them\<close>

text \<open>
  A JavaScript string is modelled as a \<open>string\<close>, one \<open>char\<close> per code unit (the
  Latin-1 range). The helpers below are the built-ins the program calls:
  \<open>startsWith\<close>, \<open>split\<close> on a separator class, \<open>join\<close>, \<open>trim\<close>, \<open>indexOf\<close>,
  \<open>lastIndexOf\<close> and \<open>slice\<close>.
\<close>

definition startsWith :: "string \<Rightarrow> string \<Rightarrow> bool" where
  "startsWith s pre = (take (length pre) s = pre)"

text \<open>\<open>s.split(sep)\<close> for a one-character separator class: the pieces between separators,
  empty pieces kept; the empty string gives one empty piece.\<close>

fun split_on :: "(char \<Rightarrow> bool) \<Rightarrow> string \<Rightarrow> string list" where
  "split_on sep [] = [[]]"
| "split_on sep (c # cs) =
     (if sep c then [] # split_on sep cs
      else (case split_on sep cs of
              [] \<Rightarrow> [[c]]
            | piece # pieces \<Rightarrow> (c # piece) # pieces))"

fun join :: "string \<Rightarrow> string list \<Rightarrow> string" where
  "join sep [] = []"
| "join sep [x] = x"
| "join sep (x # y # ys) = x @ sep @ join sep (y # ys)"

text \<open>White space of \<open>trim\<close> and of the regular expression class \<open>\s\<close>: TAB, LF, VT, FF,
  CR, SPACE and NBSP.\<close>

definition is_space :: "char \<Rightarrow> bool" where
  "is_space c = (c \<in> set [CHR 0x09, CHR 0x0A, CHR 0x0B, CHR 0x0C, CHR 0x0D, CHR 0x20, CHR 0xA0])"

text \<open>The character classes \<open>[A-Z]\<close>, \<open>[a-z]\<close>, \<open>[0-9]\<close> and \<open>\w\<close>.\<close>

definition is_upper :: "char \<Rightarrow> bool" where
  "is_upper c = (c \<in> set ''ABCDEFGHIJKLMNOPQRSTUVWXYZ'')"

definition is_lower :: "char \<Rightarrow> bool" where
  "is_lower c = (c \<in> set ''abcdefghijklmnopqrstuvwxyz'')"

definition is_digit :: "char \<Rightarrow> bool" where
  "is_digit c = (c \<in> set ''0123456789'')"

definition is_word :: "char \<Rightarrow> bool" where
  "is_word c = (is_upper c \<or> is_lower c \<or> is_digit c \<or> c = CHR ''_'')"

definition trim :: "string \<Rightarrow> string" where
  "trim s = rev (dropWhile is_space (rev (dropWhile is_space s)))"

section \<open>Path Normalizer and Path Classifier\<close>

text \<open>
  The functions of Node's \<open>path\<close> module that the program calls. They depend on the
  platform, so the model takes them as a parameter; \<open>posix\<close> is the POSIX variant.
\<close>

record pathlib =
  isAbsolute :: "string \<Rightarrow> bool"
  basename :: "string \<Rightarrow> string"

definition posix_isAbsolute :: "string \<Rightarrow> bool" where
  "posix_isAbsolute p = (case p of [] \<Rightarrow> False | c # _ \<Rightarrow> c = CHR ''/'')"

text \<open>POSIX \<open>basename\<close>: trailing slashes are ignored, the result is what follows the last
  remaining slash.\<close>

definition posix_basename :: "string \<Rightarrow> string" where
  "posix_basename p =
     rev (takeWhile (\<lambda>c. c \<noteq> CHR ''/'') (dropWhile (\<lambda>c. c = CHR ''/'') (rev p)))"

definition posix :: pathlib where
  "posix = \<lparr> isAbsolute = posix_isAbsolute, basename = posix_basename \<rparr>"

text \<open>The two errors \<open>normalizeSegments\<close> throws; both are the specification's
  \<open>InvalidPath\<close>.\<close>

datatype path_error = AbsolutePathsNotAllowed | ParentDirectoryReferencesNotAllowed

text \<open>The test \<open>/^[A-Z]:/\<close>.\<close>

definition drive_letter_prefix :: "string \<Rightarrow> bool" where
  "drive_letter_prefix s =
     (case s of
        c # d # _ \<Rightarrow> is_upper c \<and> d = CHR '':''
      | _ \<Rightarrow> False)"

definition is_separator :: "char \<Rightarrow> bool" where
  "is_separator c = (c = CHR ''/'' \<or> c = CHR 0x5C)"

text \<open>The loop over the segments: \<open>.\<close> is skipped, \<open>..\<close> throws, anything else is
  pushed.\<close>

fun normalize_loop :: "string list \<Rightarrow> string list \<Rightarrow> path_error + string list" where
  "normalize_loop [] normalizedSegments = Inr normalizedSegments"
| "normalize_loop (segment # rest) normalizedSegments =
     (if segment = ''.'' then normalize_loop rest normalizedSegments
      else if segment = ''..'' then Inl ParentDirectoryReferencesNotAllowed
      else normalize_loop rest (normalizedSegments @ [segment]))"

definition segments_of :: "string \<Rightarrow> string list" where
  "segments_of pathStr = filter (\<lambda>seg. length seg > 0) (split_on is_separator pathStr)"

definition normalizeSegments :: "pathlib \<Rightarrow> string \<Rightarrow> path_error + string" where
  "normalizeSegments P pathStr =
     (if isAbsolute P pathStr \<or> startsWith pathStr ''/'' \<or> drive_letter_prefix pathStr
      then Inl AbsolutePathsNotAllowed
      else (case normalize_loop (segments_of pathStr) [] of
              Inl e \<Rightarrow> Inl e
            | Inr normalizedSegments \<Rightarrow> Inr (join ''/'' normalizedSegments)))"

datatype path_kind = File | Directory

definition inferPathKind :: "pathlib \<Rightarrow> string \<Rightarrow> path_kind" where
  "inferPathKind P pathStr =
     (let base = basename P pathStr
      in if CHR ''.'' \<in> set base \<and> \<not> startsWith base ''.'' then File else Directory)"

section \<open>Plan Builder\<close>

text \<open>A parsed JSON value. An object is the list of its properties (a parsed object has
  each key once).\<close>

datatype json =
    JNull
  | JBool bool
  | JNum rat
  | JStr string
  | JArr "json list"
  | JObj "(string \<times> json) list"

text \<open>\<open>Array.isArray(obj.key)\<close>, giving the array's elements.\<close>

definition array_field :: "(string \<times> json) list \<Rightarrow> string \<Rightarrow> json list option" where
  "array_field props key =
     (case map_of props key of Some (JArr xs) \<Rightarrow> Some xs | _ \<Rightarrow> None)"

record plan_item =
  path :: string
  pathKind :: path_kind
  content :: "string option"

text \<open>The state shared by the two \<open>for\<close> statements of \<open>coerceGeneratedPaths\<close>: the set \<open>unique\<close> and the
  array \<open>results\<close>.\<close>

type_synonym plan_state = "string set \<times> plan_item list"

fun dir_loop :: "pathlib \<Rightarrow> json list \<Rightarrow> plan_state \<Rightarrow> plan_state" where
  "dir_loop P [] st = st"
| "dir_loop P (val # rest) (unique, results) =
     (case val of
        JStr s \<Rightarrow>
          (case normalizeSegments P s of
             Inl e \<Rightarrow> dir_loop P rest (unique, results)
           | Inr normalized \<Rightarrow>
               if normalized = [] \<or> normalized \<in> unique
               then dir_loop P rest (unique, results)
               else
                 (let kind = inferPathKind P normalized
                  in dir_loop P rest
                       (insert normalized unique,
                        results @ [\<lparr> path = normalized, pathKind = kind,
                                     content = (if kind = File then Some [] else None) \<rparr>])))
      | _ \<Rightarrow> dir_loop P rest (unique, results))"

fun file_loop :: "pathlib \<Rightarrow> json list \<Rightarrow> plan_state \<Rightarrow> plan_state" where
  "file_loop P [] st = st"
| "file_loop P (val # rest) (unique, results) =
     (case val of
        JStr s \<Rightarrow>
          (case normalizeSegments P s of
             Inl e \<Rightarrow> file_loop P rest (unique, results)
           | Inr normalized \<Rightarrow>
               if normalized = [] \<or> normalized \<in> unique
               then file_loop P rest (unique, results)
               else file_loop P rest
                      (insert normalized unique,
                       results @ [\<lparr> path = normalized, pathKind = File,
                                    content = Some [] \<rparr>]))
      | _ \<Rightarrow> file_loop P rest (unique, results))"

definition dirCandidates :: "json \<Rightarrow> json list" where
  "dirCandidates responsePayload =
     (case responsePayload of
        JArr xs \<Rightarrow> xs
      | JObj props \<Rightarrow> (case array_field props ''paths'' of Some xs \<Rightarrow> xs | None \<Rightarrow> [])
      | _ \<Rightarrow> [])"

definition fileCandidates :: "json \<Rightarrow> json list" where
  "fileCandidates responsePayload =
     (case responsePayload of
        JObj props \<Rightarrow> (case array_field props ''files'' of Some xs \<Rightarrow> xs | None \<Rightarrow> [])
      | _ \<Rightarrow> [])"

definition coerceGeneratedPaths :: "pathlib \<Rightarrow> json \<Rightarrow> plan_item list" where
  "coerceGeneratedPaths P responsePayload =
     snd (file_loop P (fileCandidates responsePayload)
            (dir_loop P (dirCandidates responsePayload) ({}, [])))"

text \<open>The words of the specification, to compare the code with: the candidates that are
  strings, normalize without error and are not empty, in order; and a list cut down to
  the first occurrence of each element.\<close>

fun accepted_paths :: "pathlib \<Rightarrow> json list \<Rightarrow> string list" where
  "accepted_paths P [] = []"
| "accepted_paths P (JStr s # rest) =
     (case normalizeSegments P s of
        Inr normalized \<Rightarrow>
          (if normalized = [] then accepted_paths P rest
           else normalized # accepted_paths P rest)
      | Inl e \<Rightarrow> accepted_paths P rest)"
| "accepted_paths P (other # rest) = accepted_paths P rest"

primrec first_occurrences :: "'a list \<Rightarrow> 'a list" where
  "first_occurrences [] = []"
| "first_occurrences (x # xs) = x # removeAll x (first_occurrences xs)"

text \<open>Auxiliary descriptions used in the proofs about the plan builder: the elements of a
  list that are new with respect to a set and to the elements before them, and the two
  shapes of item that are pushed.\<close>

fun fresh_from :: "'a set \<Rightarrow> 'a list \<Rightarrow> 'a list" where
  "fresh_from U [] = []"
| "fresh_from U (x # xs) =
     (if x \<in> U then fresh_from U xs else x # fresh_from (insert x U) xs)"

definition dir_item :: "pathlib \<Rightarrow> string \<Rightarrow> plan_item" where
  "dir_item P n = \<lparr> path = n, pathKind = inferPathKind P n,
                    content = (if inferPathKind P n = File then Some [] else None) \<rparr>"

definition file_item :: "string \<Rightarrow> plan_item" where
  "file_item n = \<lparr> path = n, pathKind = File, content = Some [] \<rparr>"

section \<open>Generation Orchestrator\<close>

text \<open>
  The collaborators of \<open>generateFilesFromPrompt\<close>: the workspace file system, the
  content provider and the editor. Each call takes the state \<open>'w\<close> of the outside world
  and returns the new one; a call that throws returns \<open>Inl\<close> of the error's message.
  A URI is identified with the path relative to the workspace folder; \<open>parentOf\<close> is
  \<open>Uri.joinPath(uri, "..")\<close>. \<open>chatCompletion\<close> is the request to the provider, given
  the values the two prompt templates are filled with, and returns the content of the
  first choice (empty when there is none). \<open>openInEditor\<close> is \<open>openTextDocument\<close>
  followed by \<open>showTextDocument\<close>. \<open>extractCodeFromText\<close> is imported from
  \<open>createProjectByAI.js\<close> and taken as given: \<open>Inl\<close> when it throws, and an empty
  result for a falsy one.
\<close>

record existing_summary =
  directories :: "string list"
  files :: "string list"

record 'w collaborators =
  parentOf :: "string \<Rightarrow> string"
  createDirectory :: "string \<Rightarrow> 'w \<Rightarrow> (string + unit) \<times> 'w"
  stat :: "string \<Rightarrow> 'w \<Rightarrow> (string + unit) \<times> 'w"
  writeFile :: "string \<Rightarrow> string \<Rightarrow> 'w \<Rightarrow> (string + unit) \<times> 'w"
  openInEditor :: "string \<Rightarrow> 'w \<Rightarrow> (string + unit) \<times> 'w"
  chatCompletion ::
    "string \<Rightarrow> string \<Rightarrow> existing_summary \<Rightarrow> string list \<Rightarrow> string \<Rightarrow> 'w
      \<Rightarrow> (string + string) \<times> 'w"
  extractCodeFromText :: "string \<Rightarrow> string + string"

text \<open>What is recorded with a failed path: the message of the error caught by the outer
  handler, or the message of an error of the editor, which the program prefixes with a
  fixed phrase.\<close>

datatype failure_reason = Thrown string | OpenFailed string

record generation_result =
  created :: "string list"
  overwritten :: "string list"
  skipped :: "string list"
  failures :: "(string \<times> failure_reason) list"

definition no_results :: generation_result where
  "no_results = \<lparr> created = [], overwritten = [], skipped = [], failures = [] \<rparr>"

definition ensureParentDir :: "'w collaborators \<Rightarrow> string \<Rightarrow> 'w \<Rightarrow> (string + unit) \<times> 'w" where
  "ensureParentDir E uri w = createDirectory E (parentOf E uri) w"

definition exists :: "'w collaborators \<Rightarrow> string \<Rightarrow> 'w \<Rightarrow> bool \<times> 'w" where
  "exists E uri w =
     (case stat E uri w of
        (Inr u, w') \<Rightarrow> (True, w')
      | (Inl e, w') \<Rightarrow> (False, w'))"

text \<open>\<open>prompt.split("\n")[0]?.slice(0, 40) || "prompt"\<close>\<close>

definition templateNameFromPrompt :: "string \<Rightarrow> string" where
  "templateNameFromPrompt prompt =
     (let name = take 40 (takeWhile (\<lambda>c. c \<noteq> CHR 0x0A) prompt)
      in if name = [] then ''prompt'' else name)"

text \<open>The header returned when the request for content fails.\<close>

definition fallback_header :: "string \<Rightarrow> string \<Rightarrow> string" where
  "fallback_header targetPath finalPrompt =
     ''// Generated fallback for '' @ targetPath @ [CHR 0x0A]
     @ ''// Template: '' @ templateNameFromPrompt finalPrompt @ [CHR 0x0A]
     @ ''// Prompt snippet: '' @ take 120 finalPrompt @ ''...'' @ [CHR 0x0A, CHR 0x0A]"

definition requestFileContentForPrompt ::
  "'w collaborators \<Rightarrow> string \<Rightarrow> string \<Rightarrow> existing_summary \<Rightarrow> string list \<Rightarrow> string
    \<Rightarrow> 'w \<Rightarrow> string \<times> 'w" where
  "requestFileContentForPrompt E model finalPrompt existingSummary allFilePaths targetPath w =
     (case chatCompletion E model finalPrompt existingSummary allFilePaths targetPath w of
        (Inl e, w') \<Rightarrow> (fallback_header targetPath finalPrompt, w')
      | (Inr answer, w') \<Rightarrow>
          (case extractCodeFromText E answer of
             Inl e \<Rightarrow> (fallback_header targetPath finalPrompt, w')
           | Inr extracted \<Rightarrow> (if extracted \<noteq> [] then extracted else answer, w')))"

text \<open>The body of the loop over \<open>filePaths\<close>, for one \<open>relativePath\<close>. The progress
  report and the summary message are not modelled.\<close>

definition process_path ::
  "'w collaborators \<Rightarrow> string \<Rightarrow> string list \<Rightarrow> bool \<Rightarrow> string \<Rightarrow> existing_summary
    \<Rightarrow> string \<Rightarrow> generation_result \<times> 'w \<Rightarrow> generation_result \<times> 'w" where
  "process_path E finalPrompt filePaths overwriteAll model existingSummary relativePath st =
     (case st of (r, w) \<Rightarrow>
      (case ensureParentDir E relativePath w of
         (Inl e, w1) \<Rightarrow> (r\<lparr> failures := failures r @ [(relativePath, Thrown e)] \<rparr>, w1)
       | (Inr u, w1) \<Rightarrow>
          (case exists E relativePath w1 of (fileExists, w2) \<Rightarrow>
             if fileExists \<and> \<not> overwriteAll
             then (r\<lparr> skipped := skipped r @ [relativePath] \<rparr>, w2)
             else
               (case requestFileContentForPrompt E model finalPrompt existingSummary
                       filePaths relativePath w2 of (buffer, w3) \<Rightarrow>
                  (case writeFile E relativePath buffer w3 of
                     (Inl e, w4) \<Rightarrow>
                       (r\<lparr> failures := failures r @ [(relativePath, Thrown e)] \<rparr>, w4)
                   | (Inr u', w4) \<Rightarrow>
                       (let r' = (if fileExists
                                  then r\<lparr> overwritten := overwritten r @ [relativePath] \<rparr>
                                  else r\<lparr> created := created r @ [relativePath] \<rparr>)
                        in (case openInEditor E relativePath w4 of
                              (Inl e, w5) \<Rightarrow>
                                (r'\<lparr> failures := failures r' @ [(relativePath, OpenFailed e)] \<rparr>,
                                 w5)
                            | (Inr u'', w5) \<Rightarrow> (r', w5))))))))"

fun process_paths ::
  "'w collaborators \<Rightarrow> string \<Rightarrow> string list \<Rightarrow> bool \<Rightarrow> string \<Rightarrow> existing_summary
    \<Rightarrow> string list \<Rightarrow> generation_result \<times> 'w \<Rightarrow> generation_result \<times> 'w" where
  "process_paths E finalPrompt filePaths overwriteAll model existingSummary [] st = st"
| "process_paths E finalPrompt filePaths overwriteAll model existingSummary (p # ps) st =
     process_paths E finalPrompt filePaths overwriteAll model existingSummary ps
       (process_path E finalPrompt filePaths overwriteAll model existingSummary p st)"

definition generateFilesFromPrompt ::
  "'w collaborators \<Rightarrow> string \<Rightarrow> string list \<Rightarrow> bool \<Rightarrow> string \<Rightarrow> existing_summary
    \<Rightarrow> 'w \<Rightarrow> generation_result \<times> 'w" where
  "generateFilesFromPrompt E finalPrompt filePaths overwriteAll model existingSummary w =
     process_paths E finalPrompt filePaths overwriteAll model existingSummary filePaths
       (no_results, w)"

text \<open>The paths of the failures of either kind.\<close>

fun thrown_paths :: "(string \<times> failure_reason) list \<Rightarrow> string list" where
  "thrown_paths [] = []"
| "thrown_paths ((p, Thrown e) # fs) = p # thrown_paths fs"
| "thrown_paths ((p, OpenFailed e) # fs) = thrown_paths fs"

fun open_failed_paths :: "(string \<times> failure_reason) list \<Rightarrow> string list" where
  "open_failed_paths [] = []"
| "open_failed_paths ((p, Thrown e) # fs) = open_failed_paths fs"
| "open_failed_paths ((p, OpenFailed e) # fs) = p # open_failed_paths fs"

text \<open>
  A concrete outside world to run the orchestrator in: the files of the workspace with
  their contents. Directory creation, provider, write and editor fail for the paths
  listed in \<open>bad_dirs\<close>, \<open>bad_requests\<close>, \<open>bad_writes\<close> and \<open>bad_opens\<close>.
\<close>

definition sim_env ::
  "string list \<Rightarrow> string list \<Rightarrow> string list \<Rightarrow> string list
    \<Rightarrow> ((string \<times> string) list) collaborators" where
  "sim_env bad_dirs bad_requests bad_writes bad_opens =
     \<lparr> parentOf = (\<lambda>p. p),
       createDirectory = (\<lambda>p w. (if p \<in> set bad_dirs then Inl ''EACCES'' else Inr (), w)),
       stat = (\<lambda>p w. (if p \<in> set (map fst w) then Inr () else Inl ''ENOENT'', w)),
       writeFile = (\<lambda>p c w. if p \<in> set bad_writes then (Inl ''EIO'', w)
                              else (Inr (), (p, c) # filter (\<lambda>e. fst e \<noteq> p) w)),
       openInEditor = (\<lambda>p w. (if p \<in> set bad_opens then Inl ''no editor'' else Inr (), w)),
       chatCompletion = (\<lambda>m pr ex al p w.
          (if p \<in> set bad_requests then Inl ''timeout'' else Inr (''content of '' @ p), w)),
       extractCodeFromText = (\<lambda>t. Inr []) \<rparr>"

text \<open>The paths a result accounts for outside the editor failures.\<close>

definition accounted :: "generation_result \<Rightarrow> string multiset" where
  "accounted r = mset (created r) + mset (overwritten r) + mset (skipped r)
                 + mset (thrown_paths (failures r))"

text \<open>
  The paths of a run on which the editor failed, read off the collaborators alone: the
  parent directory was created, the path was not skipped, the write succeeded, and
  opening the written document failed. \<open>editor_failed_paths\<close> goes through the target
  paths in order, each in the state of the outside world its predecessors left.
\<close>

definition editor_fails_on ::
  "'w collaborators \<Rightarrow> string \<Rightarrow> string list \<Rightarrow> bool \<Rightarrow> string \<Rightarrow> existing_summary
    \<Rightarrow> string \<Rightarrow> 'w \<Rightarrow> bool" where
  "editor_fails_on E finalPrompt filePaths overwriteAll model existingSummary relativePath w =
     (case ensureParentDir E relativePath w of
        (Inl e, w1) \<Rightarrow> False
      | (Inr u, w1) \<Rightarrow>
          (case exists E relativePath w1 of (fileExists, w2) \<Rightarrow>
             if fileExists \<and> \<not> overwriteAll then False
             else
               (case requestFileContentForPrompt E model finalPrompt existingSummary
                       filePaths relativePath w2 of (buffer, w3) \<Rightarrow>
                  (case writeFile E relativePath buffer w3 of
                     (Inl e, w4) \<Rightarrow> False
                   | (Inr u', w4) \<Rightarrow> isl (fst (openInEditor E relativePath w4))))))"

fun editor_failed_paths ::
  "'w collaborators \<Rightarrow> string \<Rightarrow> string list \<Rightarrow> bool \<Rightarrow> string \<Rightarrow> existing_summary
    \<Rightarrow> string list \<Rightarrow> generation_result \<times> 'w \<Rightarrow> string list" where
  "editor_failed_paths E finalPrompt filePaths overwriteAll model existingSummary [] st = []"
| "editor_failed_paths E finalPrompt filePaths overwriteAll model existingSummary (p # ps) st =
     (if editor_fails_on E finalPrompt filePaths overwriteAll model existingSummary p (snd st)
      then [p] else [])
     @ editor_failed_paths E finalPrompt filePaths overwriteAll model existingSummary ps
         (process_path E finalPrompt filePaths overwriteAll model existingSummary p st)"

section \<open>Regular expressions\<close>

text \<open>
  The program finds its tokens with JavaScript regular expressions. They are modelled by
  a backtracking matcher over the constructs the program's patterns use: character
  classes, sequence, alternative, greedy and lazy repetition, and capture groups.
  \<open>rx_run r s k\<close> lists, in the order in which backtracking tries them, the ways \<open>r\<close> can
  match a prefix of \<open>s\<close>: what is left of \<open>s\<close>, and the captures \<open>k\<close> extended by the
  groups of \<open>r\<close>. The first element is the match JavaScript reports. A repetition does not
  take an iteration that consumes nothing.
\<close>

datatype rx =
    Eps
  | Cls "char \<Rightarrow> bool"
  | Seq rx rx
  | Alt rx rx
  | Star rx
  | LazyStar rx
  | Grp nat rx

type_synonym captures = "(nat \<times> string) list"

fun rx_run :: "rx \<Rightarrow> string \<Rightarrow> captures \<Rightarrow> (string \<times> captures) list" where
  "rx_run Eps s k = [(s, k)]"
| "rx_run (Cls p) s k = (case s of [] \<Rightarrow> [] | c # cs \<Rightarrow> if p c then [(cs, k)] else [])"
| "rx_run (Seq a b) s k = concat (map (\<lambda>(s', k'). rx_run b s' k') (rx_run a s k))"
| "rx_run (Alt a b) s k = rx_run a s k @ rx_run b s k"
| "rx_run (Star a) s k =
     concat (map (\<lambda>(s', k'). if length s' < length s then rx_run (Star a) s' k' else [])
                 (rx_run a s k))
     @ [(s, k)]"
| "rx_run (LazyStar a) s k =
     (s, k) #
     concat (map (\<lambda>(s', k'). if length s' < length s then rx_run (LazyStar a) s' k' else [])
                 (rx_run a s k))"
| "rx_run (Grp n a) s k =
     map (\<lambda>(s', k'). (s', (n, take (length s - length s') s) # k')) (rx_run a s k)"

declare rx_run.simps(5,6) [simp del]

text \<open>Pattern syntax: a literal character, a literal string, \<open>r+\<close>, \<open>r+?\<close>, \<open>r?\<close>,
  a sequence, \<open>[^...]\<close> and \<open>\s*\<close>.\<close>

definition Lit :: "char \<Rightarrow> rx" where
  "Lit c = Cls (\<lambda>x. x = c)"

fun Str :: "string \<Rightarrow> rx" where
  "Str [] = Eps"
| "Str (c # cs) = Seq (Lit c) (Str cs)"

definition Plus :: "rx \<Rightarrow> rx" where
  "Plus r = Seq r (Star r)"

definition LazyPlus :: "rx \<Rightarrow> rx" where
  "LazyPlus r = Seq r (LazyStar r)"

definition Opt :: "rx \<Rightarrow> rx" where
  "Opt r = Alt r Eps"

fun Seqs :: "rx list \<Rightarrow> rx" where
  "Seqs [] = Eps"
| "Seqs [r] = r"
| "Seqs (r # rs) = Seq r (Seqs rs)"

definition NoneOf :: "string \<Rightarrow> rx" where
  "NoneOf cs = Cls (\<lambda>c. c \<notin> set cs)"

definition Spaces :: rx where
  "Spaces = Star (Cls is_space)"

text \<open>A match as \<open>exec\<close> and \<open>match\<close> return it: \<open>index\<close>, the matched text \<open>m[0]\<close> and the
  groups.\<close>

record rx_match =
  index :: nat
  matched :: string
  groups :: captures

definition group :: "rx_match \<Rightarrow> nat \<Rightarrow> string option" where
  "group m n = map_of (groups m) n"

text \<open>The leftmost match in \<open>s\<close>, where \<open>s\<close> starts at offset \<open>i\<close> of the whole string;
  also what follows the match.\<close>

fun rx_search :: "rx \<Rightarrow> string \<Rightarrow> nat \<Rightarrow> (rx_match \<times> string) option" where
  "rx_search re s i =
     (case rx_run re s [] of
        (rest, k) # others \<Rightarrow>
          Some (\<lparr> index = i, matched = take (length s - length rest) s, groups = k \<rparr>, rest)
      | [] \<Rightarrow> (case s of [] \<Rightarrow> None | c # cs \<Rightarrow> rx_search re cs (Suc i)))"

text \<open>The matches that the loop \<open>while ((m = re.exec(template)))\<close> sees with a global
  pattern: each search starts where the last match ended. All patterns of the program
  start with two literal braces, so a match is never empty; the model stops at an empty
  match.\<close>

function exec_all :: "rx \<Rightarrow> string \<Rightarrow> nat \<Rightarrow> rx_match list" where
  "exec_all re s i =
     (case rx_search re s i of
        None \<Rightarrow> []
      | Some (m, rest) \<Rightarrow>
          m # (if length rest < length s
               then exec_all re rest (index m + length (matched m))
               else []))"
  by pat_completeness auto
termination
  by (relation "measure (\<lambda>(re, s, i). length s)") auto

declare rx_search.simps [simp del]
declare exec_all.simps [simp del]

text \<open>\<open>s.replace(re, f)\<close> with a global pattern: every match is replaced by what the
  callback returns for it, the text between matches is kept. The callback is given the
  number of matches replaced before; after an empty match one character is copied.\<close>

function replace_all :: "rx \<Rightarrow> (nat \<Rightarrow> captures \<Rightarrow> string) \<Rightarrow> nat \<Rightarrow> string \<Rightarrow> string" where
  "replace_all re f n s =
     (case rx_run re s [] of
        (rest, k) # others \<Rightarrow>
          if length rest < length s then f n k @ replace_all re f (Suc n) rest
          else f n k @ (case s of [] \<Rightarrow> [] | c # cs \<Rightarrow> c # replace_all re f (Suc n) cs)
      | [] \<Rightarrow> (case s of [] \<Rightarrow> [] | c # cs \<Rightarrow> c # replace_all re f n cs))"
  by pat_completeness auto
termination
  by (relation "measure (\<lambda>(re, f, n, s). length s)") auto

declare replace_all.simps [simp del]

text \<open>\<open>s.indexOf(t)\<close> and, for one character, \<open>s.lastIndexOf(c)\<close>: \<open>None\<close> is \<open>-1\<close>.\<close>

fun indexOf :: "string \<Rightarrow> string \<Rightarrow> nat option" where
  "indexOf s t =
     (if startsWith s t then Some 0
      else (case s of
              [] \<Rightarrow> None
            | c # cs \<Rightarrow> (case indexOf cs t of None \<Rightarrow> None | Some i \<Rightarrow> Some (Suc i))))"

declare indexOf.simps [simp del]

fun lastIndexOf_char :: "string \<Rightarrow> char \<Rightarrow> nat option" where
  "lastIndexOf_char [] c = None"
| "lastIndexOf_char (x # xs) c =
     (case lastIndexOf_char xs c of
        Some i \<Rightarrow> Some (Suc i)
      | None \<Rightarrow> if x = c then Some 0 else None)"

text \<open>Auxiliary notions for the proofs about the patterns: a pattern that never matches
  the empty string, and a string rebuilt from its matches, the \<open>n\<close>-th of them replaced
  by what the callback returns for \<open>n\<close> and the text between them kept.\<close>

definition never_empty :: "rx \<Rightarrow> bool" where
  "never_empty re = (\<forall>s k s' k'. (s', k') \<in> set (rx_run re s k) \<longrightarrow> length s' < length s)"

fun splice :: "rx_match list \<Rightarrow> (nat \<Rightarrow> captures \<Rightarrow> string) \<Rightarrow> nat \<Rightarrow> nat \<Rightarrow> string \<Rightarrow> string" where
  "splice [] f n pos s = s"
| "splice (m # ms) f n pos s =
     take (index m - pos) s @ f n (groups m)
     @ splice ms f (Suc n) (index m + length (matched m))
         (drop (index m - pos + length (matched m)) s)"

section \<open>Placeholder Scanner and Token Resolver\<close>

text \<open>\<open>/\{\{\s*([^{}:|,]+)\s*\}\}/g\<close>\<close>

definition simple_parse_re :: rx where
  "simple_parse_re =
     Seqs [Str ''{{'', Spaces, Grp 1 (Plus (NoneOf ''{}:|,'')), Spaces, Str ''}}'']"

text \<open>\<open>parsePlaceholders\<close>: the set \<open>seen\<close> keeps the order of insertion.\<close>

fun add_seen :: "string list \<Rightarrow> rx_match list \<Rightarrow> string list" where
  "add_seen seen [] = seen"
| "add_seen seen (m # ms) =
     (case group m 1 of
        Some name \<Rightarrow>
          if name \<noteq> ''radio'' \<and> name \<noteq> ''ai''
          then add_seen (if name \<in> set seen then seen else seen @ [name]) ms
          else add_seen seen ms
      | None \<Rightarrow> add_seen seen ms)"

definition parsePlaceholders :: "string \<Rightarrow> string list" where
  "parsePlaceholders template = add_seen [] (exec_all simple_parse_re template 0)"

text \<open>\<open>/\{\{\s*([\w.-]+)\s*\}\}/g\<close>\<close>

definition name_char :: "char \<Rightarrow> bool" where
  "name_char c = (is_word c \<or> c = CHR ''.'' \<or> c = CHR ''-'')"

definition simple_fill_re :: rx where
  "simple_fill_re = Seqs [Str ''{{'', Spaces, Grp 1 (Plus (Cls name_char)), Spaces, Str ''}}'']"

text \<open>\<open>fillPlaceholders\<close>; \<open>values\<close> is the object's own properties.\<close>

definition fillPlaceholders :: "string \<Rightarrow> (string \<times> string) list \<Rightarrow> string" where
  "fillPlaceholders template values =
     replace_all simple_fill_re
       (\<lambda>n k. case map_of k 1 of
                 Some key \<Rightarrow> (case map_of values key of Some v \<Rightarrow> v | None \<Rightarrow> [])
               | None \<Rightarrow> [])
       0 template"

text \<open>The pieces the choice patterns share: an option list
  \<open>[^}|]+(?:\s*,\s*[^}|]+)+\<close> (or with \<open>[^{}:|]\<close>), and the default part
  \<open>(?:\|\s*([^}]+?))?\<close>.\<close>

definition option_list :: "string \<Rightarrow> rx" where
  "option_list excluded =
     Seq (Plus (NoneOf excluded))
         (Plus (Seqs [Spaces, Lit (CHR '',''), Spaces, Plus (NoneOf excluded)]))"

definition default_part :: "nat \<Rightarrow> rx" where
  "default_part n = Opt (Seqs [Lit (CHR ''|''), Spaces, Grp n (LazyPlus (NoneOf ''}''))])"

text \<open>\<open>/\{\{\s*([\w.-]+)\s*:\s*([^}|]+(?:\s*,\s*[^}|]+)+)\s*(?:\|\s*([^}]+?))?\s*\}\}/g\<close>\<close>

definition namedRe :: rx where
  "namedRe =
     Seqs [Str ''{{'', Spaces, Grp 1 (Plus (Cls name_char)), Spaces, Lit (CHR '':''), Spaces,
           Grp 2 (option_list ''}|''), Spaces, default_part 3, Spaces, Str ''}}'']"

text \<open>\<open>/\{\{\s*([^{}:|]+(?:\s*,\s*[^{}:|]+)+)\s*(?:\|\s*([^}]+?))?\s*\}\}/g\<close>\<close>

definition anonRe :: rx where
  "anonRe =
     Seqs [Str ''{{'', Spaces, Grp 1 (option_list ''{}:|''), Spaces, default_part 2, Spaces,
           Str ''}}'']"

text \<open>\<open>/\{\{\s*radio\s*\|\s*([^}|]+(?:\s*,\s*[^}|]+)+)\s*(?:\|\s*([^}]+?))?\s*\}\}/g\<close>\<close>

definition radioRe :: rx where
  "radioRe =
     Seqs [Str ''{{'', Spaces, Str ''radio'', Spaces, Lit (CHR ''|''), Spaces,
           Grp 1 (option_list ''}|''), Spaces, default_part 2, Spaces, Str ''}}'']"

text \<open>\<open>/\{\{\s*ai\s*\|\s*([^}|]+)\s*(?:\|\s*([^}]+?))?\s*\}\}/g\<close>\<close>

definition aiRe :: rx where
  "aiRe =
     Seqs [Str ''{{'', Spaces, Str ''ai'', Spaces, Lit (CHR ''|''), Spaces,
           Grp 1 (Plus (NoneOf ''}|'')), Spaces, default_part 2, Spaces, Str ''}}'']"

datatype token_type = Choice | Radio | Ai

record token =
  raw :: string
  name :: "string option"
  options :: "string list"
  default :: "string option"
  type :: token_type
  aiPrompt :: "string option"

text \<open>\<open>opts.split(',').map((s) => s.trim())\<close>\<close>

definition split_options :: "string \<Rightarrow> string list" where
  "split_options opts = map trim (split_on (\<lambda>c. c = CHR '','') opts)"

text \<open>The test \<open>tokens.some(...)\<close>: the candidate's span \<open>[start, end)\<close> against the span of
  the first occurrence of each accepted token's text.\<close>

definition overlaps :: "string \<Rightarrow> token list \<Rightarrow> nat \<Rightarrow> nat \<Rightarrow> bool" where
  "overlaps template tokens start end =
     list_ex (\<lambda>t. case indexOf template (raw t) of
                    None \<Rightarrow> False
                  | Some i \<Rightarrow> \<not> (end \<le> i \<or> start \<ge> i + length (raw t)))
             tokens"

fun named_loop :: "rx_match list \<Rightarrow> token list \<Rightarrow> token list" where
  "named_loop [] tokens = tokens"
| "named_loop (m # ms) tokens =
     named_loop ms
       (tokens @ [\<lparr> raw = matched m, name = group m 1,
                     options = split_options (case group m 2 of Some opts \<Rightarrow> opts | None \<Rightarrow> []),
                     default = map_option trim (group m 3), type = Choice,
                     aiPrompt = None \<rparr>])"

fun choice_loop :: "string \<Rightarrow> token_type \<Rightarrow> rx_match list \<Rightarrow> token list \<Rightarrow> token list" where
  "choice_loop template ty [] tokens = tokens"
| "choice_loop template ty (m # ms) tokens =
     (if overlaps template tokens (index m) (index m + length (matched m))
      then choice_loop template ty ms tokens
      else choice_loop template ty ms
             (tokens @ [\<lparr> raw = matched m, name = None,
                           options = split_options
                                       (case group m 1 of Some opts \<Rightarrow> opts | None \<Rightarrow> []),
                           default = map_option trim (group m 2), type = ty,
                           aiPrompt = None \<rparr>]))"

fun ai_loop :: "string \<Rightarrow> rx_match list \<Rightarrow> token list \<Rightarrow> token list" where
  "ai_loop template [] tokens = tokens"
| "ai_loop template (m # ms) tokens =
     (if overlaps template tokens (index m) (index m + length (matched m))
      then ai_loop template ms tokens
      else ai_loop template ms
             (tokens @ [\<lparr> raw = matched m, name = None,
                           options = [trim (case group m 1 of Some p \<Rightarrow> p | None \<Rightarrow> [])],
                           default = map_option trim (group m 2), type = Ai,
                           aiPrompt = Some (trim (case group m 1 of Some p \<Rightarrow> p | None \<Rightarrow> [])) \<rparr>]))"

text \<open>The key of the final sort, \<open>template.indexOf(t.raw)\<close>.\<close>

definition first_index :: "string \<Rightarrow> token \<Rightarrow> int" where
  "first_index template t =
     (case indexOf template (raw t) of None \<Rightarrow> - 1 | Some i \<Rightarrow> int i)"

definition parseChoicePlaceholders :: "string \<Rightarrow> token list" where
  "parseChoicePlaceholders template =
     (let tokens1 = named_loop (exec_all namedRe template 0) [];
          tokens2 = choice_loop template Choice (exec_all anonRe template 0) tokens1;
          tokens3 = choice_loop template Radio (exec_all radioRe template 0) tokens2;
          tokens4 = ai_loop template (exec_all aiRe template 0) tokens3
      in sort_key (first_index template) tokens4)"

text \<open>The pattern of \<open>fillChoicePlaceholders\<close>: the four forms as alternatives, then the
  default part (without a group).\<close>

definition choice_fill_re :: rx where
  "choice_fill_re =
     Seqs [Str ''{{'', Spaces,
           Alt (Seqs [Plus (Cls name_char), Spaces, Lit (CHR '':''), Spaces,
                      Grp 1 (option_list ''}|'')])
          (Alt (Grp 2 (option_list ''{}:|''))
          (Alt (Seqs [Str ''radio'', Spaces, Lit (CHR ''|''), Spaces, Grp 3 (option_list ''}|'')])
               (Seqs [Str ''ai'', Spaces, Lit (CHR ''|''), Spaces, Grp 4 (Plus (NoneOf ''}|''))]))),
           Spaces,
           Opt (Seqs [Lit (CHR ''|''), Spaces, LazyPlus (NoneOf ''}'')]),
           Spaces, Str ''}}'']"

text \<open>\<open>selectedValues[i++]\<close>, or the empty string where there is none.\<close>

definition selected_or_empty :: "string list \<Rightarrow> nat \<Rightarrow> string" where
  "selected_or_empty selectedValues i =
     (if i < length selectedValues then selectedValues ! i else [])"

definition fillChoicePlaceholders :: "string \<Rightarrow> string list \<Rightarrow> string" where
  "fillChoicePlaceholders template selectedValues =
     (if selectedValues = [] then template
      else replace_all choice_fill_re (\<lambda>i k. selected_or_empty selectedValues i) 0 template)"

section \<open>Response Extractor\<close>

text \<open>\<open>/```[a-zA-Z]*\s*([\s\S]*?)\s*```/\<close>\<close>

definition fence_re :: rx where
  "fence_re =
     Seqs [Str ''```'', Star (Cls (\<lambda>c. is_upper c \<or> is_lower c)), Spaces,
           Grp 1 (LazyStar (Cls (\<lambda>c. True))), Spaces, Str ''```'']"

text \<open>\<open>text.match(fence)\<close> and \<open>fenceMatch[1].trim()\<close>.\<close>

definition fence_inside :: "string \<Rightarrow> string option" where
  "fence_inside text =
     (case rx_search fence_re text 0 of
        None \<Rightarrow> None
      | Some (fenceMatch, rest) \<Rightarrow>
          Some (trim (case group fenceMatch 1 of Some g \<Rightarrow> g | None \<Rightarrow> [])))"

text \<open>\<open>str.slice(s, e + 1)\<close> for \<open>s\<close> the first \<open>{\<close> and \<open>e\<close> the last \<open>}\<close>, when both
  exist and \<open>e > s\<close>.\<close>

definition brace_slice :: "string \<Rightarrow> string option" where
  "brace_slice str =
     (case (indexOf str ''{'', lastIndexOf_char str (CHR ''}'')) of
        (Some s, Some e) \<Rightarrow> if e > s then Some (drop s (take (e + 1) str)) else None
      | _ \<Rightarrow> None)"

text \<open>Truthiness of a parsed JSON value, as \<open>if (parsed)\<close> tests it.\<close>

fun truthy :: "json \<Rightarrow> bool" where
  "truthy JNull = False"
| "truthy (JBool b) = b"
| "truthy (JNum n) = (n \<noteq> 0)"
| "truthy (JStr s) = (s \<noteq> [])"
| "truthy (JArr xs) = True"
| "truthy (JObj props) = True"

text \<open>\<open>parsed = tryParse(str); if (parsed) return parsed;\<close> where \<open>tryParse\<close> is
  \<open>undefined\<close> when \<open>JSON.parse\<close> throws. \<open>JSON.parse\<close> is a parameter of the model:
  \<open>None\<close> when it throws.\<close>

definition tryParse :: "(string \<Rightarrow> json option) \<Rightarrow> string \<Rightarrow> json option" where
  "tryParse JSON_parse str =
     (case JSON_parse str of
        Some parsed \<Rightarrow> if truthy parsed then Some parsed else None
      | None \<Rightarrow> None)"

datatype extract_error = InvalidJSONResponse string

text \<open>\<open>parseJSONResponse\<close> on the text of the response.\<close>

definition parseJSONResponse :: "(string \<Rightarrow> json option) \<Rightarrow> string \<Rightarrow> extract_error + json" where
  "parseJSONResponse JSON_parse text =
     (case tryParse JSON_parse (trim text) of
        Some parsed \<Rightarrow> Inr parsed
      | None \<Rightarrow>
          (case (case fence_inside text of
                   None \<Rightarrow> None
                 | Some inside \<Rightarrow>
                     (case tryParse JSON_parse inside of
                        Some parsed \<Rightarrow> Some parsed
                      | None \<Rightarrow>
                          (case brace_slice inside of
                             None \<Rightarrow> None
                           | Some sliced \<Rightarrow> tryParse JSON_parse sliced))) of
             Some parsed \<Rightarrow> Inr parsed
           | None \<Rightarrow>
               (case brace_slice text of
                  None \<Rightarrow> Inl (InvalidJSONResponse text)
                | Some sliced \<Rightarrow>
                    (case tryParse JSON_parse sliced of
                       Some parsed \<Rightarrow> Inr parsed
                     | None \<Rightarrow> Inl (InvalidJSONResponse text)))))"

text \<open>The words of the specification: the texts the strategies hand to the parser, in
  order, and the first of a list of texts that a parser accepts.\<close>

definition strategy_texts :: "string \<Rightarrow> string list" where
  "strategy_texts text =
     trim text
     # (case fence_inside text of
          None \<Rightarrow> []
        | Some inside \<Rightarrow> inside # (case brace_slice inside of None \<Rightarrow> [] | Some sliced \<Rightarrow> [sliced]))
     @ (case brace_slice text of None \<Rightarrow> [] | Some sliced \<Rightarrow> [sliced])"

fun first_success :: "(string \<Rightarrow> json option) \<Rightarrow> string list \<Rightarrow> json option" where
  "first_success parse [] = None"
| "first_success parse (t # ts) =
     (case parse t of Some v \<Rightarrow> Some v | None \<Rightarrow> first_success parse ts)"

text \<open>\<open>JSON.parse\<close> on a few literal texts, to run the extractor on them; this stand-in
  rejects every other text.\<close>

definition literal_parse :: "string \<Rightarrow> json option" where
  "literal_parse s =
     (if s = ''null'' then Some JNull
      else if s = ''true'' then Some (JBool True)
      else if s = ''false'' then Some (JBool False)
      else if s = ''0'' then Some (JNum 0)
      else if s = ''[]'' then Some (JArr [])
      else if s = ''{}'' then Some (JObj [])
      else None)"

section \<open>Verification: Path Normalizer\<close>

lemma normalize_loop_Inl:
  "(\<exists>e. normalize_loop segs acc = Inl e) \<longleftrightarrow> ''..'' \<in> set segs"
  by (induction segs arbitrary: acc) auto

lemma normalize_loop_error:
  "normalize_loop segs acc = Inl e \<Longrightarrow> e = ParentDirectoryReferencesNotAllowed"
  by (induction segs arbitrary: acc) (auto split: if_splits)

lemma normalize_loop_Inr:
  "''..'' \<notin> set segs \<Longrightarrow>
   normalize_loop segs acc = Inr (acc @ filter (\<lambda>seg. seg \<noteq> ''.'') segs)"
  by (induction segs arbitrary: acc) auto

lemma dotdot_segments_of:
  "''..'' \<in> set (segments_of s) \<longleftrightarrow> ''..'' \<in> set (split_on is_separator s)"
  by (auto simp: segments_of_def)

lemma posix_absolute_iff: "isAbsolute posix s \<longleftrightarrow> startsWith s ''/''"
  by (cases s) (auto simp: posix_def posix_isAbsolute_def startsWith_def)

lemmas normalize_posix_defs =
  normalizeSegments_def posix_def posix_isAbsolute_def startsWith_def drive_letter_prefix_def
  is_upper_def segments_of_def is_separator_def

lemma normalize_traversal_example:
  "normalizeSegments posix ''a/./b/../c'' = Inl ParentDirectoryReferencesNotAllowed"
  by (simp add: normalize_posix_defs)

lemma normalize_dot_example: "normalizeSegments posix ''a/./b/c'' = Inr ''a/b/c''"
  by (simp add: normalize_posix_defs)

lemma normalizeSegments_cases:
  "normalizeSegments P s =
     (if isAbsolute P s \<or> startsWith s ''/'' \<or> drive_letter_prefix s
      then Inl AbsolutePathsNotAllowed
      else if ''..'' \<in> set (split_on is_separator s)
      then Inl ParentDirectoryReferencesNotAllowed
      else Inr (join ''/'' (filter (\<lambda>seg. seg \<noteq> [] \<and> seg \<noteq> ''.'')
                               (split_on is_separator s))))"
proof (cases "''..'' \<in> set (segments_of s)")
  case True
  then obtain e where e: "normalize_loop (segments_of s) [] = Inl e"
    using normalize_loop_Inl by blast
  then have "e = ParentDirectoryReferencesNotAllowed"
    by (rule normalize_loop_error)
  with e True show ?thesis
    by (simp add: normalizeSegments_def dotdot_segments_of)
next
  case False
  then have "normalize_loop (segments_of s) [] =
      Inr (filter (\<lambda>seg. seg \<noteq> ''.'') (segments_of s))"
    by (simp add: normalize_loop_Inr)
  with False show ?thesis
    by (simp add: normalizeSegments_def dotdot_segments_of segments_of_def conj_commute)
qed

text \<open>
  C1. For every input string and on every platform, \<open>normalizeSegments\<close> fails exactly
  when the string is an absolute path (for the platform's \<open>path.isAbsolute\<close>, or because
  it starts with \<open>/\<close> or with an upper-case drive letter and a colon) or one of its
  \<open>/\<close>-or-backslash-delimited segments is \<open>..\<close>. Otherwise it returns the segments that
  are neither empty nor \<open>.\<close>, joined with \<open>/\<close>. On POSIX, \<open>path.isAbsolute\<close> is "starts
  with \<open>/\<close>". \<open>normalize("a/./b/../c")\<close> fails and \<open>normalize("a/./b/c")\<close> is \<open>"a/b/c"\<close>.
\<close>

theorem normalize_contract:
  "((\<exists>e. normalizeSegments P s = Inl e) \<longleftrightarrow>
      (isAbsolute P s \<or> startsWith s ''/'' \<or> drive_letter_prefix s)
      \<or> ''..'' \<in> set (split_on is_separator s))
   \<and> (\<not> ((isAbsolute P s \<or> startsWith s ''/'' \<or> drive_letter_prefix s)
          \<or> ''..'' \<in> set (split_on is_separator s)) \<longrightarrow>
        normalizeSegments P s =
          Inr (join ''/'' (filter (\<lambda>seg. seg \<noteq> [] \<and> seg \<noteq> ''.'')
                              (split_on is_separator s))))
   \<and> (isAbsolute posix s \<longleftrightarrow> startsWith s ''/'')
   \<and> normalizeSegments posix ''a/./b/../c'' = Inl ParentDirectoryReferencesNotAllowed
   \<and> normalizeSegments posix ''a/./b/c'' = Inr ''a/b/c''"
proof -
  have iff: "(\<exists>e. normalizeSegments P s = Inl e) \<longleftrightarrow>
      (isAbsolute P s \<or> startsWith s ''/'' \<or> drive_letter_prefix s)
      \<or> ''..'' \<in> set (split_on is_separator s)"
    by (subst normalizeSegments_cases) auto
  have ok: "\<not> ((isAbsolute P s \<or> startsWith s ''/'' \<or> drive_letter_prefix s)
          \<or> ''..'' \<in> set (split_on is_separator s)) \<longrightarrow>
        normalizeSegments P s =
          Inr (join ''/'' (filter (\<lambda>seg. seg \<noteq> [] \<and> seg \<noteq> ''.'')
                              (split_on is_separator s)))"
    by (subst normalizeSegments_cases) auto
  show ?thesis
    using iff ok posix_absolute_iff normalize_traversal_example normalize_dot_example
    by blast
qed

theorem normalize_contract_witness:
  "\<not> ((isAbsolute posix ''src//./lib/'' \<or> startsWith ''src//./lib/'' ''/''
        \<or> drive_letter_prefix ''src//./lib/'')
       \<or> ''..'' \<in> set (split_on is_separator ''src//./lib/''))
   \<and> normalizeSegments posix ''src//./lib/'' = Inr ''src/lib''"
  using normalize_contract [of posix "''src//./lib/''"]
  by (simp add: posix_def posix_isAbsolute_def startsWith_def drive_letter_prefix_def
      is_upper_def is_separator_def)

text \<open>
  C10. The drive-letter test accepts upper-case letters only. On POSIX the input
  \<open>c:\x\<close>, with a lower-case drive letter, is not rejected: the result is \<open>c:/x\<close>.
\<close>

theorem normalize_lowercase_drive:
  "(drive_letter_prefix s \<longleftrightarrow>
      (\<exists>c rest. s = c # CHR '':'' # rest \<and> c \<in> set ''ABCDEFGHIJKLMNOPQRSTUVWXYZ''))
   \<and> normalizeSegments posix (''c:'' @ [CHR 0x5C] @ ''x'') = Inr ''c:/x''"
proof -
  have a: "drive_letter_prefix s \<longleftrightarrow>
      (\<exists>c rest. s = c # CHR '':'' # rest \<and> c \<in> set ''ABCDEFGHIJKLMNOPQRSTUVWXYZ'')"
    by (auto simp: drive_letter_prefix_def is_upper_def split: list.splits)
  have b: "normalizeSegments posix (''c:'' @ [CHR 0x5C] @ ''x'') = Inr ''c:/x''"
    by (simp add: normalize_posix_defs)
  from a b show ?thesis by blast
qed

section \<open>Verification: Plan Builder\<close>

lemma fresh_from_filter:
  "fresh_from U xs = filter (\<lambda>x. x \<notin> U) (first_occurrences xs)"
proof (induction xs arbitrary: U)
  case Nil
  show ?case by simp
next
  case (Cons x xs)
  have a: "filter (\<lambda>y. y \<notin> insert x U) ys = filter (\<lambda>y. y \<notin> U) (removeAll x ys)" for ys
    by (induction ys) auto
  have b: "x \<in> U \<Longrightarrow> filter (\<lambda>y. y \<notin> U) (removeAll x ys) = filter (\<lambda>y. y \<notin> U) ys" for ys
    by (induction ys) auto
  show ?case
  proof (cases "x \<in> U")
    case True
    then show ?thesis by (simp add: Cons.IH b)
  next
    case False
    have "fresh_from U (x # xs) = x # filter (\<lambda>y. y \<notin> insert x U) (first_occurrences xs)"
      using False by (simp add: Cons.IH)
    also have "\<dots> = x # filter (\<lambda>y. y \<notin> U) (removeAll x (first_occurrences xs))"
      by (simp only: a)
    finally show ?thesis using False by simp
  qed
qed

lemma fresh_from_empty: "fresh_from {} xs = first_occurrences xs"
  by (simp add: fresh_from_filter)

lemma fresh_from_append:
  "fresh_from U (xs @ ys) = fresh_from U xs @ fresh_from (U \<union> set xs) ys"
  by (induction xs arbitrary: U) (auto simp: insert_absorb)

lemma set_fresh_from: "set (fresh_from U xs) = set xs - U"
  by (induction xs arbitrary: U) auto

lemma distinct_fresh_from: "distinct (fresh_from U xs)"
  by (induction xs arbitrary: U) (auto simp: set_fresh_from)

lemma dir_loop_eq:
  "dir_loop P xs (U, R) =
     (U \<union> set (accepted_paths P xs),
      R @ map (dir_item P) (fresh_from U (accepted_paths P xs)))"
proof (induction xs arbitrary: U R)
  case Nil
  show ?case by simp
next
  case (Cons v xs)
  show ?case
    by (cases v) (auto simp: Cons.IH dir_item_def Let_def split: sum.splits)
qed

lemma file_loop_eq:
  "file_loop P xs (U, R) =
     (U \<union> set (accepted_paths P xs),
      R @ map file_item (fresh_from U (accepted_paths P xs)))"
proof (induction xs arbitrary: U R)
  case Nil
  show ?case by simp
next
  case (Cons v xs)
  show ?case
    by (cases v) (auto simp: Cons.IH file_item_def split: sum.splits)
qed

lemma coerceGeneratedPaths_eq:
  "coerceGeneratedPaths P v =
     map (dir_item P) (first_occurrences (accepted_paths P (dirCandidates v)))
     @ map file_item (fresh_from (set (accepted_paths P (dirCandidates v)))
                        (accepted_paths P (fileCandidates v)))"
  by (simp add: coerceGeneratedPaths_def dir_loop_eq file_loop_eq fresh_from_empty)

lemma path_dir_item: "path (dir_item P n) = n"
  by (simp add: dir_item_def)

lemma path_file_item: "path (file_item n) = n"
  by (simp add: file_item_def)

lemma coerce_paths:
  "map path (coerceGeneratedPaths P v) =
     first_occurrences (accepted_paths P (dirCandidates v) @ accepted_paths P (fileCandidates v))"
proof -
  have "map path (coerceGeneratedPaths P v) =
      fresh_from {} (accepted_paths P (dirCandidates v))
      @ fresh_from (set (accepted_paths P (dirCandidates v))) (accepted_paths P (fileCandidates v))"
    by (simp add: coerceGeneratedPaths_eq fresh_from_empty comp_def path_dir_item path_file_item)
  also have "\<dots> = fresh_from {} (accepted_paths P (dirCandidates v) @ accepted_paths P (fileCandidates v))"
    by (simp add: fresh_from_append)
  finally show ?thesis by (simp add: fresh_from_empty)
qed

lemma coerce_distinct: "distinct (map path (coerceGeneratedPaths P v))"
  unfolding coerce_paths fresh_from_empty [symmetric] by (rule distinct_fresh_from)

lemma coerce_kinds:
  assumes "it \<in> set (coerceGeneratedPaths P v)"
  shows "pathKind it = (if path it \<in> set (accepted_paths P (dirCandidates v))
                        then inferPathKind P (path it) else File)
         \<and> content it = (if pathKind it = File then Some [] else None)"
proof -
  from assms consider
      n where "it = dir_item P n" "n \<in> set (accepted_paths P (dirCandidates v))"
    | n where "it = file_item n" "n \<notin> set (accepted_paths P (dirCandidates v))"
    by (auto simp: coerceGeneratedPaths_eq fresh_from_empty [symmetric] set_fresh_from)
  then show ?thesis
    by cases (auto simp: dir_item_def file_item_def)
qed

lemma coerce_example:
  "coerceGeneratedPaths posix
     (JObj [(''paths'', JArr [JStr ''src/app.js'', JStr ''src/lib'']),
            (''files'', JArr [JStr ''src/app.js''])])
   = [\<lparr> path = ''src/app.js'', pathKind = File, content = Some [] \<rparr>,
      \<lparr> path = ''src/lib'', pathKind = Directory, content = None \<rparr>]"
  by (simp add: coerceGeneratedPaths_def dirCandidates_def fileCandidates_def array_field_def
      normalizeSegments_def posix_def posix_isAbsolute_def startsWith_def drive_letter_prefix_def
      is_upper_def segments_of_def is_separator_def inferPathKind_def posix_basename_def)

text \<open>
  C2. The plan builder goes through the \<open>paths\<close>-or-bare-array candidates first and then
  through the \<open>files\<close> candidates; the paths of its result are the accepted normalized
  paths of both lists in that order, each kept at its first occurrence only, so no path
  occurs twice. An item whose path was accepted from the first list keeps the kind the
  classifier gave it there, also when \<open>files\<close> names it again; the other items are
  files. \<open>build({paths:["src/app.js","src/lib"], files:["src/app.js"]})\<close> is the file
  \<open>src/app.js\<close> followed by the directory \<open>src/lib\<close>.
\<close>

theorem plan_builder_first_wins:
  "map path (coerceGeneratedPaths P v) =
     first_occurrences (accepted_paths P (dirCandidates v) @ accepted_paths P (fileCandidates v))
   \<and> distinct (map path (coerceGeneratedPaths P v))
   \<and> (\<forall>it \<in> set (coerceGeneratedPaths P v).
        pathKind it = (if path it \<in> set (accepted_paths P (dirCandidates v))
                       then inferPathKind P (path it) else File)
        \<and> content it = (if pathKind it = File then Some [] else None))
   \<and> coerceGeneratedPaths posix
        (JObj [(''paths'', JArr [JStr ''src/app.js'', JStr ''src/lib'']),
               (''files'', JArr [JStr ''src/app.js''])])
      = [\<lparr> path = ''src/app.js'', pathKind = File, content = Some [] \<rparr>,
         \<lparr> path = ''src/lib'', pathKind = Directory, content = None \<rparr>]"
  using coerce_paths [of P v] coerce_distinct [of P v] coerce_kinds [of _ P v] coerce_example
  by blast

theorem plan_builder_first_wins_witness:
  "\<lparr> path = ''src/lib'', pathKind = Directory, content = None \<rparr>
     \<in> set (coerceGeneratedPaths posix
              (JObj [(''paths'', JArr [JStr ''src/app.js'', JStr ''src/lib'']),
                     (''files'', JArr [JStr ''src/app.js''])]))
   \<and> map path (coerceGeneratedPaths posix
              (JObj [(''paths'', JArr [JStr ''src/app.js'', JStr ''src/lib'']),
                     (''files'', JArr [JStr ''src/app.js''])]))
     = [''src/app.js'', ''src/lib'']"
proof -
  have "coerceGeneratedPaths posix
        (JObj [(''paths'', JArr [JStr ''src/app.js'', JStr ''src/lib'']),
               (''files'', JArr [JStr ''src/app.js''])])
      = [\<lparr> path = ''src/app.js'', pathKind = File, content = Some [] \<rparr>,
         \<lparr> path = ''src/lib'', pathKind = Directory, content = None \<rparr>]"
    using plan_builder_first_wins [of posix JNull] by blast
  then show ?thesis by simp
qed

section \<open>Verification: Generation Orchestrator\<close>

lemma thrown_paths_append: "thrown_paths (xs @ ys) = thrown_paths xs @ thrown_paths ys"
  by (induction xs rule: thrown_paths.induct) auto

lemma open_failed_paths_append:
  "open_failed_paths (xs @ ys) = open_failed_paths xs @ open_failed_paths ys"
  by (induction xs rule: open_failed_paths.induct) auto

lemma mset_failure_paths:
  "mset (map fst fs) = mset (thrown_paths fs) + mset (open_failed_paths fs)"
  by (induction fs rule: thrown_paths.induct) auto

lemma process_path_cases:
  assumes "process_path E fp allp ov m ex p (r, w) = (r', w')"
  shows "(\<exists>e. r' = r\<lparr> failures := failures r @ [(p, Thrown e)] \<rparr>)
       \<or> r' = r\<lparr> skipped := skipped r @ [p] \<rparr>
       \<or> r' = r\<lparr> overwritten := overwritten r @ [p] \<rparr>
       \<or> r' = r\<lparr> created := created r @ [p] \<rparr>
       \<or> (\<exists>e. r' = r\<lparr> overwritten := overwritten r @ [p],
                       failures := failures r @ [(p, OpenFailed e)] \<rparr>)
       \<or> (\<exists>e. r' = r\<lparr> created := created r @ [p],
                       failures := failures r @ [(p, OpenFailed e)] \<rparr>)"
  using assms
  by (auto simp: process_path_def Let_def split: prod.splits sum.splits if_splits)

lemma process_path_accounted:
  assumes "process_path E fp allp ov m ex p (r, w) = (r', w')"
  shows "accounted r' = accounted r + {#p#}"
  using process_path_cases [OF assms]
  by (auto simp: accounted_def thrown_paths_append open_failed_paths_append)

lemma process_path_opened:
  assumes "process_path E fp allp ov m ex p (r, w) = (r', w')"
    and "mset (open_failed_paths (failures r)) \<subseteq># mset (created r) + mset (overwritten r)"
  shows "mset (open_failed_paths (failures r')) \<subseteq># mset (created r') + mset (overwritten r')"
proof -
  have grow: "A \<subseteq># add_mset p B" if "A \<subseteq># B" for A B :: "string multiset"
    using that by (metis mset_subset_eq_add_left subset_mset.order_trans add_mset_add_single)
  show ?thesis
    using process_path_cases [OF assms(1)] assms(2)
    by (auto simp: thrown_paths_append open_failed_paths_append grow)
qed

lemma process_path_no_open_failure:
  assumes "process_path E fp allp ov m ex p (r, w) = (r', w')"
    and "\<forall>q v. \<not> isl (fst (openInEditor E q v))"
    and "open_failed_paths (failures r) = []"
  shows "open_failed_paths (failures r') = []"
proof -
  have "openInEditor E q v \<noteq> (Inl e, v')" for q v e v'
    using assms(2) by (metis fst_conv sum.disc(1))
  then show ?thesis
    using assms(1,3)
    by (auto simp: process_path_def Let_def open_failed_paths_append
        split: prod.splits sum.splits if_splits)
qed

lemma process_paths_accounted:
  "process_paths E fp allp ov m ex ps (r, w) = (r', w') \<Longrightarrow>
   accounted r' = accounted r + mset ps"
proof (induction ps arbitrary: r w)
  case Nil
  then show ?case by simp
next
  case (Cons p ps)
  obtain r1 w1 where s: "process_path E fp allp ov m ex p (r, w) = (r1, w1)"
    by (cases "process_path E fp allp ov m ex p (r, w)")
  with Cons.prems have "process_paths E fp allp ov m ex ps (r1, w1) = (r', w')"
    by simp
  then have "accounted r' = accounted r1 + mset ps"
    by (rule Cons.IH)
  with process_path_accounted [OF s] show ?case by simp
qed

lemma process_paths_opened:
  "process_paths E fp allp ov m ex ps (r, w) = (r', w') \<Longrightarrow>
   mset (open_failed_paths (failures r)) \<subseteq># mset (created r) + mset (overwritten r) \<Longrightarrow>
   mset (open_failed_paths (failures r')) \<subseteq># mset (created r') + mset (overwritten r')"
proof (induction ps arbitrary: r w)
  case Nil
  then show ?case by simp
next
  case (Cons p ps)
  obtain r1 w1 where s: "process_path E fp allp ov m ex p (r, w) = (r1, w1)"
    by (cases "process_path E fp allp ov m ex p (r, w)")
  with Cons.prems have "process_paths E fp allp ov m ex ps (r1, w1) = (r', w')"
    by simp
  moreover have "mset (open_failed_paths (failures r1)) \<subseteq># mset (created r1) + mset (overwritten r1)"
    using process_path_opened [OF s] Cons.prems(2) by simp
  ultimately show ?case by (rule Cons.IH)
qed

lemma process_paths_no_open_failure:
  "process_paths E fp allp ov m ex ps (r, w) = (r', w') \<Longrightarrow>
   \<forall>q v. \<not> isl (fst (openInEditor E q v)) \<Longrightarrow>
   open_failed_paths (failures r) = [] \<Longrightarrow>
   open_failed_paths (failures r') = []"
proof (induction ps arbitrary: r w)
  case Nil
  then show ?case by simp
next
  case (Cons p ps)
  obtain r1 w1 where s: "process_path E fp allp ov m ex p (r, w) = (r1, w1)"
    by (cases "process_path E fp allp ov m ex p (r, w)")
  with Cons.prems have "process_paths E fp allp ov m ex ps (r1, w1) = (r', w')"
    by simp
  moreover have "open_failed_paths (failures r1) = []"
    using process_path_no_open_failure [OF s] Cons.prems(2,3) by simp
  ultimately show ?case using Cons.prems(2) Cons.IH by blast
qed

lemma process_path_open_failure:
  assumes "process_path E fp allp ov m ex p (r, w) = (r', w')"
  shows "open_failed_paths (failures r') =
           open_failed_paths (failures r)
           @ (if editor_fails_on E fp allp ov m ex p w then [p] else [])"
  using assms
  by (auto simp: process_path_def editor_fails_on_def Let_def open_failed_paths_append
      split: prod.splits sum.splits if_splits)

lemma process_paths_open_failures:
  "process_paths E fp allp ov m ex ps (r, w) = (r', w') \<Longrightarrow>
   open_failed_paths (failures r') =
     open_failed_paths (failures r) @ editor_failed_paths E fp allp ov m ex ps (r, w)"
proof (induction ps arbitrary: r w)
  case Nil
  then show ?case by simp
next
  case (Cons p ps)
  obtain r1 w1 where s: "process_path E fp allp ov m ex p (r, w) = (r1, w1)"
    by (cases "process_path E fp allp ov m ex p (r, w)")
  with Cons.prems have "process_paths E fp allp ov m ex ps (r1, w1) = (r', w')"
    by simp
  then have "open_failed_paths (failures r') =
      open_failed_paths (failures r1) @ editor_failed_paths E fp allp ov m ex ps (r1, w1)"
    by (rule Cons.IH)
  with process_path_open_failure [OF s] s show ?case by simp
qed

lemma open_failed_paths_subset: "set (open_failed_paths fs) \<subseteq> set (map fst fs)"
  by (induction fs rule: open_failed_paths.induct) auto

lemmas sim_defs = generateFilesFromPrompt_def process_path_def sim_env_def no_results_def
  ensureParentDir_def exists_def requestFileContentForPrompt_def

text \<open>
  C3 (as amended). Every occurrence of a target path is recorded in exactly one of
  created, overwritten, skipped, or failed with the error thrown by the directory
  creation or the write, whatever fails on the way: no path is left out after a failure.
  The paths recorded in failed for an editor failure are, in order, exactly the paths
  that were written and whose document the editor then failed to open; each of them is
  in failed in addition to created or overwritten. Where the editor never fails, every
  occurrence is in exactly one of the four buckets.
\<close>

theorem buckets_cover_paths:
  "mset filePaths =
     mset (created (fst (generateFilesFromPrompt E fp filePaths ov m ex w)))
     + mset (overwritten (fst (generateFilesFromPrompt E fp filePaths ov m ex w)))
     + mset (skipped (fst (generateFilesFromPrompt E fp filePaths ov m ex w)))
     + mset (thrown_paths (failures (fst (generateFilesFromPrompt E fp filePaths ov m ex w))))
   \<and> mset (open_failed_paths (failures (fst (generateFilesFromPrompt E fp filePaths ov m ex w))))
       \<subseteq># mset (created (fst (generateFilesFromPrompt E fp filePaths ov m ex w)))
           + mset (overwritten (fst (generateFilesFromPrompt E fp filePaths ov m ex w)))
   \<and> ((\<forall>q v. \<not> isl (fst (openInEditor E q v))) \<longrightarrow>
        mset filePaths =
          mset (created (fst (generateFilesFromPrompt E fp filePaths ov m ex w)))
          + mset (overwritten (fst (generateFilesFromPrompt E fp filePaths ov m ex w)))
          + mset (skipped (fst (generateFilesFromPrompt E fp filePaths ov m ex w)))
          + mset (map fst (failures (fst (generateFilesFromPrompt E fp filePaths ov m ex w)))))
   \<and> open_failed_paths (failures (fst (generateFilesFromPrompt E fp filePaths ov m ex w)))
       = editor_failed_paths E fp filePaths ov m ex filePaths (no_results, w)
   \<and> set (editor_failed_paths E fp filePaths ov m ex filePaths (no_results, w))
       \<subseteq> set (map fst (failures (fst (generateFilesFromPrompt E fp filePaths ov m ex w))))
           \<inter> (set (created (fst (generateFilesFromPrompt E fp filePaths ov m ex w)))
                \<union> set (overwritten (fst (generateFilesFromPrompt E fp filePaths ov m ex w))))"
proof -
  obtain r' w' where run: "generateFilesFromPrompt E fp filePaths ov m ex w = (r', w')"
    by (cases "generateFilesFromPrompt E fp filePaths ov m ex w")
  then have loop: "process_paths E fp filePaths ov m ex filePaths (no_results, w) = (r', w')"
    by (simp add: generateFilesFromPrompt_def)
  have "accounted r' = accounted no_results + mset filePaths"
    using loop by (rule process_paths_accounted)
  then have a: "mset filePaths = mset (created r') + mset (overwritten r') + mset (skipped r')
      + mset (thrown_paths (failures r'))"
    by (simp add: accounted_def no_results_def)
  have b: "mset (open_failed_paths (failures r')) \<subseteq># mset (created r') + mset (overwritten r')"
    using loop by (rule process_paths_opened) (simp add: no_results_def)
  have c: "mset filePaths = mset (created r') + mset (overwritten r') + mset (skipped r')
      + mset (map fst (failures r'))"
    if "\<forall>q v. \<not> isl (fst (openInEditor E q v))"
  proof -
    have "open_failed_paths (failures r') = []"
      using loop that by (rule process_paths_no_open_failure) (simp add: no_results_def)
    with a mset_failure_paths [of "failures r'"] show ?thesis by simp
  qed
  have d: "open_failed_paths (failures r')
      = editor_failed_paths E fp filePaths ov m ex filePaths (no_results, w)"
    using process_paths_open_failures [OF loop] by (simp add: no_results_def)
  have "set (open_failed_paths (failures r')) \<subseteq> set (created r') \<union> set (overwritten r')"
    using set_mset_mono [OF b] by simp
  with open_failed_paths_subset [of "failures r'"]
  have e: "set (editor_failed_paths E fp filePaths ov m ex filePaths (no_results, w))
      \<subseteq> set (map fst (failures r')) \<inter> (set (created r') \<union> set (overwritten r'))"
    unfolding d [symmetric] by blast
  from a b c d e show ?thesis by (simp add: run)
qed


theorem buckets_cover_paths_witness:
  "(\<forall>q v. \<not> isl (fst (openInEditor (sim_env [''c''] [''a''] [''d''] []) q v)))
   \<and> mset [''a'', ''b'', ''c'', ''d''] =
       mset (created (fst (generateFilesFromPrompt (sim_env [''c''] [''a''] [''d''] [])
              ''make it'' [''a'', ''b'', ''c'', ''d''] False ''m''
              \<lparr> directories = [], files = [] \<rparr> [(''b'', ''old'')])))
       + mset (overwritten (fst (generateFilesFromPrompt (sim_env [''c''] [''a''] [''d''] [])
              ''make it'' [''a'', ''b'', ''c'', ''d''] False ''m''
              \<lparr> directories = [], files = [] \<rparr> [(''b'', ''old'')])))
       + mset (skipped (fst (generateFilesFromPrompt (sim_env [''c''] [''a''] [''d''] [])
              ''make it'' [''a'', ''b'', ''c'', ''d''] False ''m''
              \<lparr> directories = [], files = [] \<rparr> [(''b'', ''old'')])))
       + mset (map fst (failures (fst (generateFilesFromPrompt (sim_env [''c''] [''a''] [''d''] [])
              ''make it'' [''a'', ''b'', ''c'', ''d''] False ''m''
              \<lparr> directories = [], files = [] \<rparr> [(''b'', ''old'')]))))
   \<and> fst (generateFilesFromPrompt (sim_env [''c''] [''a''] [''d''] [])
              ''make it'' [''a'', ''b'', ''c'', ''d''] False ''m''
              \<lparr> directories = [], files = [] \<rparr> [(''b'', ''old'')])
       = \<lparr> created = [''a''], overwritten = [], skipped = [''b''],
           failures = [(''c'', Thrown ''EACCES''), (''d'', Thrown ''EIO'')] \<rparr>
   \<and> editor_failed_paths (sim_env [] [] [] [''b'']) ''make it'' [''a'', ''b''] True ''m''
         \<lparr> directories = [], files = [] \<rparr> [''a'', ''b''] (no_results, [(''b'', ''old'')])
       = [''b'']
   \<and> fst (generateFilesFromPrompt (sim_env [] [] [] [''b''])
              ''make it'' [''a'', ''b''] True ''m''
              \<lparr> directories = [], files = [] \<rparr> [(''b'', ''old'')])
       = \<lparr> created = [''a''], overwritten = [''b''], skipped = [],
           failures = [(''b'', OpenFailed ''no editor'')] \<rparr>"
proof -
  have h: "\<forall>q v. \<not> isl (fst (openInEditor (sim_env [''c''] [''a''] [''d''] []) q v))"
    by (simp add: sim_env_def)
  have e: "fst (generateFilesFromPrompt (sim_env [''c''] [''a''] [''d''] [])
              ''make it'' [''a'', ''b'', ''c'', ''d''] False ''m''
              \<lparr> directories = [], files = [] \<rparr> [(''b'', ''old'')])
       = \<lparr> created = [''a''], overwritten = [], skipped = [''b''],
           failures = [(''c'', Thrown ''EACCES''), (''d'', Thrown ''EIO'')] \<rparr>"
    by (simp add: sim_defs)
  have g: "fst (generateFilesFromPrompt (sim_env [] [] [] [''b''])
              ''make it'' [''a'', ''b''] True ''m''
              \<lparr> directories = [], files = [] \<rparr> [(''b'', ''old'')])
       = \<lparr> created = [''a''], overwritten = [''b''], skipped = [],
           failures = [(''b'', OpenFailed ''no editor'')] \<rparr>"
    by (simp add: sim_defs)
  have "open_failed_paths (failures (fst (generateFilesFromPrompt (sim_env [] [] [] [''b''])
              ''make it'' [''a'', ''b''] True ''m''
              \<lparr> directories = [], files = [] \<rparr> [(''b'', ''old'')])))
       = editor_failed_paths (sim_env [] [] [] [''b'']) ''make it'' [''a'', ''b''] True ''m''
           \<lparr> directories = [], files = [] \<rparr> [''a'', ''b''] (no_results, [(''b'', ''old'')])"
    using buckets_cover_paths [of "[''a'', ''b'']" "sim_env [] [] [] [''b'']" "''make it''" True
        "''m''" "\<lparr> directories = [], files = [] \<rparr>" "[(''b'', ''old'')]"]
    by blast
  then have f: "editor_failed_paths (sim_env [] [] [] [''b'']) ''make it'' [''a'', ''b''] True ''m''
         \<lparr> directories = [], files = [] \<rparr> [''a'', ''b''] (no_results, [(''b'', ''old'')])
       = [''b'']"
    by (simp add: g)
  have "mset [''a'', ''b'', ''c'', ''d''] =
       mset (created (fst (generateFilesFromPrompt (sim_env [''c''] [''a''] [''d''] [])
              ''make it'' [''a'', ''b'', ''c'', ''d''] False ''m''
              \<lparr> directories = [], files = [] \<rparr> [(''b'', ''old'')])))
       + mset (overwritten (fst (generateFilesFromPrompt (sim_env [''c''] [''a''] [''d''] [])
              ''make it'' [''a'', ''b'', ''c'', ''d''] False ''m''
              \<lparr> directories = [], files = [] \<rparr> [(''b'', ''old'')])))
       + mset (skipped (fst (generateFilesFromPrompt (sim_env [''c''] [''a''] [''d''] [])
              ''make it'' [''a'', ''b'', ''c'', ''d''] False ''m''
              \<lparr> directories = [], files = [] \<rparr> [(''b'', ''old'')])))
       + mset (map fst (failures (fst (generateFilesFromPrompt (sim_env [''c''] [''a''] [''d''] [])
              ''make it'' [''a'', ''b'', ''c'', ''d''] False ''m''
              \<lparr> directories = [], files = [] \<rparr> [(''b'', ''old'')]))))"
    using h buckets_cover_paths [of "[''a'', ''b'', ''c'', ''d'']"
        "sim_env [''c''] [''a''] [''d''] []" "''make it''" False "''m''"
        "\<lparr> directories = [], files = [] \<rparr>" "[(''b'', ''old'')]"]
    by blast
  with h e f g show ?thesis by (intro conjI)
qed

text \<open>
  C3 as stated fails: a path that was written and could not be opened in the editor is
  both in created and in failed.
\<close>

theorem exactly_one_bucket_counterexample:
  "''src/app.js'' \<in> set (created (fst (generateFilesFromPrompt
       (sim_env [] [] [] [''src/app.js'']) ''make it'' [''src/app.js''] False ''m''
       \<lparr> directories = [], files = [] \<rparr> [])))
   \<and> ''src/app.js'' \<in> set (map fst (failures (fst (generateFilesFromPrompt
       (sim_env [] [] [] [''src/app.js'']) ''make it'' [''src/app.js''] False ''m''
       \<lparr> directories = [], files = [] \<rparr> []))))"
  by (simp add: sim_defs)

text \<open>
  C4 (as amended). For a path that is to be written (its parent directory was created,
  and it does not exist or overwriting is on) and whose content request fails, the
  content is the fallback header made from the path and the prompt, the write is
  attempted with it, and the path is recorded as created (overwritten if it existed)
  unless the write fails. The path is recorded in failed when the write fails, and also
  when the write succeeds and the editor then fails to open the document.
\<close>

theorem fallback_content_still_written:
  assumes mk: "ensureParentDir E p w = (Inr (), w1)"
    and ex: "exists E p w1 = (fileExists, w2)"
    and go: "\<not> (fileExists \<and> \<not> ov)"
    and gen: "chatCompletion E m fp exs allp p w2 = (Inl err, w3)"
    and wr: "writeFile E p (fallback_header p fp) w3 = (wres, w4)"
    and op: "openInEditor E p w4 = (ores, w5)"
    and run: "process_path E fp allp ov m exs p (r, w) = (r', w')"
  shows "requestFileContentForPrompt E m fp exs allp p w2 = (fallback_header p fp, w3)
    \<and> skipped r' = skipped r
    \<and> (\<not> isl wres \<longrightarrow>
          created r' = (if fileExists then created r else created r @ [p])
          \<and> overwritten r' = (if fileExists then overwritten r @ [p] else overwritten r))
    \<and> (isl wres \<longrightarrow> created r' = created r \<and> overwritten r' = overwritten r)
    \<and> failures r' = failures r @
          (if isl wres then [(p, Thrown (projl wres))]
           else if isl ores then [(p, OpenFailed (projl ores))]
           else [])"
proof -
  have req: "requestFileContentForPrompt E m fp exs allp p w2 = (fallback_header p fp, w3)"
    using gen by (simp add: requestFileContentForPrompt_def)
  show ?thesis
  proof (cases wres)
    case (Inl e)
    with mk ex go req wr run show ?thesis
      by (auto simp: process_path_def)
  next
    case (Inr u)
    with mk ex go req wr op run show ?thesis
      by (cases ores) (auto simp: process_path_def Let_def)
  qed
qed

theorem fallback_content_still_written_witness:
  "ensureParentDir (sim_env [] [''a''] [] []) ''a'' [] = (Inr (), [])
   \<and> exists (sim_env [] [''a''] [] []) ''a'' [] = (False, [])
   \<and> \<not> (False \<and> \<not> False)
   \<and> chatCompletion (sim_env [] [''a''] [] []) ''m'' ''make it''
         \<lparr> directories = [], files = [] \<rparr> [''a''] ''a'' [] = (Inl ''timeout'', [])
   \<and> writeFile (sim_env [] [''a''] [] []) ''a'' (fallback_header ''a'' ''make it'') []
       = (Inr (), [(''a'', fallback_header ''a'' ''make it'')])
   \<and> openInEditor (sim_env [] [''a''] [] []) ''a'' [(''a'', fallback_header ''a'' ''make it'')]
       = (Inr (), [(''a'', fallback_header ''a'' ''make it'')])
   \<and> process_path (sim_env [] [''a''] [] []) ''make it'' [''a''] False ''m''
         \<lparr> directories = [], files = [] \<rparr> ''a'' (no_results, [])
       = (no_results \<lparr> created := [''a''] \<rparr>, [(''a'', fallback_header ''a'' ''make it'')])
   \<and> created (no_results \<lparr> created := [''a''] \<rparr>) = created no_results @ [''a'']
   \<and> failures (no_results \<lparr> created := [''a''] \<rparr>) = failures no_results
   \<and> fallback_header ''a'' ''make it''
       = ''// Generated fallback for a'' @ [CHR 0x0A] @ ''// Template: make it'' @ [CHR 0x0A]
         @ ''// Prompt snippet: make it...'' @ [CHR 0x0A, CHR 0x0A]"
proof -
  have hd: "fallback_header ''a'' ''make it''
       = ''// Generated fallback for a'' @ [CHR 0x0A] @ ''// Template: make it'' @ [CHR 0x0A]
         @ ''// Prompt snippet: make it...'' @ [CHR 0x0A, CHR 0x0A]"
    by (simp add: fallback_header_def templateNameFromPrompt_def)
  let ?E = "sim_env [] [''a''] [] []"
  let ?W = "[(''a'', fallback_header ''a'' ''make it'')]"
  let ?S = "\<lparr> directories = [], files = [] \<rparr>"
  have mk: "ensureParentDir ?E ''a'' [] = (Inr (), [])"
    by (simp add: sim_defs)
  have ex: "exists ?E ''a'' [] = (False, [])"
    by (simp add: sim_defs)
  have go: "\<not> (False \<and> \<not> False)"
    by simp
  have gen: "chatCompletion ?E ''m'' ''make it'' ?S [''a''] ''a'' [] = (Inl ''timeout'', [])"
    by (simp add: sim_defs)
  have wr: "writeFile ?E ''a'' (fallback_header ''a'' ''make it'') [] = (Inr (), ?W)"
    by (simp add: sim_defs)
  have op: "openInEditor ?E ''a'' ?W = (Inr (), ?W)"
    by (simp add: sim_defs)
  have run: "process_path ?E ''make it'' [''a''] False ''m'' ?S ''a'' (no_results, [])
      = (no_results \<lparr> created := [''a''] \<rparr>, ?W)"
    by (simp add: sim_defs)
  show ?thesis
    using fallback_content_still_written [OF mk ex go gen wr op run] mk ex gen wr op run hd
    by simp
qed

text \<open>
  C4 as stated fails: the content request fails, the fallback content is written, the
  editor cannot open the document, and the path is in failed although its write
  succeeded.
\<close>

theorem failed_only_on_write_counterexample:
  "generateFilesFromPrompt (sim_env [] [''a''] [] [''a'']) ''make it'' [''a''] False ''m''
     \<lparr> directories = [], files = [] \<rparr> []
   = (\<lparr> created = [''a''], overwritten = [], skipped = [],
        failures = [(''a'', OpenFailed ''no editor'')] \<rparr>,
      [(''a'', fallback_header ''a'' ''make it'')])
   \<and> writeFile (sim_env [] [''a''] [] [''a'']) ''a'' (fallback_header ''a'' ''make it'') []
       = (Inr (), [(''a'', fallback_header ''a'' ''make it'')])"
  by (simp add: sim_defs)

section \<open>Verification: Response Extractor\<close>

lemma extract_first_truthy:
  "parseJSONResponse parse text =
     (case first_success (tryParse parse) (strategy_texts text) of
        Some v \<Rightarrow> Inr v
      | None \<Rightarrow> Inl (InvalidJSONResponse text))"
  by (simp add: parseJSONResponse_def strategy_texts_def split: option.splits)

lemma first_success_Some:
  "first_success f ts = Some v \<Longrightarrow> \<exists>t \<in> set ts. f t = Some v"
  by (induction ts) (auto split: option.splits)

lemma first_success_None:
  "first_success f ts = None \<longleftrightarrow> (\<forall>t \<in> set ts. f t = None)"
  by (induction ts) (auto split: option.splits)

lemma tryParse_Some: "tryParse parse t = Some v \<longleftrightarrow> parse t = Some v \<and> truthy v"
  by (auto simp: tryParse_def split: option.splits)

lemma tryParse_None: "tryParse parse t = None \<longleftrightarrow> (\<forall>v. parse t = Some v \<longrightarrow> \<not> truthy v)"
  by (auto simp: tryParse_def split: option.splits)

text \<open>
  C5 (as amended). The extractor tries, in order, the trimmed whole text; the trimmed
  interior of the first fenced block and then the interior's slice from its first \<open>{\<close>
  to its last \<open>}\<close>; and the whole text's slice from its first \<open>{\<close> to its last \<open>}\<close>.
  The first text that parses to a truthy JSON value gives the result; the extractor
  fails exactly when no text does.
\<close>

theorem extract_strategies_in_order:
  "parseJSONResponse parse text =
     (case first_success (tryParse parse) (strategy_texts text) of
        Some v \<Rightarrow> Inr v
      | None \<Rightarrow> Inl (InvalidJSONResponse text))
   \<and> ((\<exists>e. parseJSONResponse parse text = Inl e) \<longleftrightarrow>
        (\<forall>t \<in> set (strategy_texts text). tryParse parse t = None))"
proof -
  have "(\<exists>e. parseJSONResponse parse text = Inl e) \<longleftrightarrow>
      first_success (tryParse parse) (strategy_texts text) = None"
    by (simp add: extract_first_truthy split: option.splits)
  then have "(\<exists>e. parseJSONResponse parse text = Inl e) \<longleftrightarrow>
      (\<forall>t \<in> set (strategy_texts text). tryParse parse t = None)"
    by (simp only: first_success_None)
  with extract_first_truthy [of parse "text"] show ?thesis
    by (rule conjI)
qed

theorem extract_strategies_in_order_witness:
  "strategy_texts ''say ```js 0 ```'' = [''say ```js 0 ```'', ''0'']
   \<and> tryParse literal_parse ''say ```js 0 ```'' = None
   \<and> tryParse literal_parse ''0'' = None
   \<and> (\<exists>e. parseJSONResponse literal_parse ''say ```js 0 ```'' = Inl e)"
proof -
  have texts: "strategy_texts ''say ```js 0 ```'' = [''say ```js 0 ```'', ''0'']"
    by code_simp
  have whole: "tryParse literal_parse ''say ```js 0 ```'' = None"
    by code_simp
  have inside: "tryParse literal_parse ''0'' = None"
    by code_simp
  have a: "\<forall>t \<in> set (strategy_texts ''say ```js 0 ```''). tryParse literal_parse t = None"
    using whole inside by (simp add: texts)
  have "(\<exists>e. parseJSONResponse literal_parse ''say ```js 0 ```'' = Inl e) \<longleftrightarrow>
      (\<forall>t \<in> set (strategy_texts ''say ```js 0 ```''). tryParse literal_parse t = None)"
    by (rule conjunct2 [OF extract_strategies_in_order])
  then have "\<exists>e. parseJSONResponse literal_parse ''say ```js 0 ```'' = Inl e"
    using a by (rule iffD2)
  with texts whole inside show ?thesis by (intro conjI)
qed

text \<open>
  C5 as stated fails: the first strategy parses the text \<open>false\<close> without error, and the
  extractor fails all the same.
\<close>

theorem extract_first_parse_counterexample:
  "first_success literal_parse (strategy_texts ''false'') = Some (JBool False)
   \<and> parseJSONResponse literal_parse ''false'' = Inl (InvalidJSONResponse ''false'')"
  by code_simp

text \<open>
  C9. The extractor returns a value only if the value is truthy and one of the
  strategies parsed it; when every text that a strategy parses gives a falsy value
  (\<open>null\<close>, \<open>false\<close>, \<open>0\<close>, the empty string), the extractor fails although the text is
  valid JSON.
\<close>

theorem extract_needs_truthy:
  "(parseJSONResponse parse text = Inr v \<longrightarrow>
      truthy v \<and> (\<exists>t \<in> set (strategy_texts text). parse t = Some v))
   \<and> ((\<forall>t \<in> set (strategy_texts text). \<forall>u. parse t = Some u \<longrightarrow> \<not> truthy u) \<longrightarrow>
        parseJSONResponse parse text = Inl (InvalidJSONResponse text))"
proof -
  have a: "truthy v \<and> (\<exists>t \<in> set (strategy_texts text). parse t = Some v)"
    if "parseJSONResponse parse text = Inr v"
  proof -
    from that have "first_success (tryParse parse) (strategy_texts text) = Some v"
      by (simp add: extract_first_truthy split: option.splits)
    then obtain t where "t \<in> set (strategy_texts text)" "tryParse parse t = Some v"
      using first_success_Some by blast
    then show ?thesis by (auto simp: tryParse_Some)
  qed
  have b: "parseJSONResponse parse text = Inl (InvalidJSONResponse text)"
    if "\<forall>t \<in> set (strategy_texts text). \<forall>u. parse t = Some u \<longrightarrow> \<not> truthy u"
  proof -
    from that have "first_success (tryParse parse) (strategy_texts text) = None"
      by (simp add: first_success_None tryParse_None)
    then show ?thesis by (simp add: extract_first_truthy)
  qed
  from a b show ?thesis by blast
qed

theorem extract_needs_truthy_witness:
  "strategy_texts ''null'' = [''null'']
   \<and> literal_parse ''null'' = Some JNull
   \<and> \<not> truthy JNull
   \<and> parseJSONResponse literal_parse ''null'' = Inl (InvalidJSONResponse ''null'')
   \<and> parseJSONResponse literal_parse '' {} '' = Inr (JObj [])
   \<and> truthy (JObj [])"
proof -
  have n: "strategy_texts ''null'' = [''null'']"
    by code_simp
  have p: "literal_parse ''null'' = Some JNull"
    by (simp add: literal_parse_def)
  have f: "\<not> truthy JNull"
    by simp
  have hn: "\<forall>t \<in> set (strategy_texts ''null''). \<forall>u. literal_parse t = Some u \<longrightarrow> \<not> truthy u"
    by (simp add: n literal_parse_def)
  have ok: "parseJSONResponse literal_parse '' {} '' = Inr (JObj [])"
    by code_simp
  have "(\<forall>t \<in> set (strategy_texts ''null''). \<forall>u. literal_parse t = Some u \<longrightarrow> \<not> truthy u)
      \<longrightarrow> parseJSONResponse literal_parse ''null'' = Inl (InvalidJSONResponse ''null'')"
    by (rule conjunct2 [OF extract_needs_truthy])
  then have fails: "parseJSONResponse literal_parse ''null'' = Inl (InvalidJSONResponse ''null'')"
    using hn by (rule mp)
  have "parseJSONResponse literal_parse '' {} '' = Inr (JObj []) \<longrightarrow>
      truthy (JObj []) \<and> (\<exists>t \<in> set (strategy_texts '' {} ''). literal_parse t = Some (JObj []))"
    by (rule conjunct1 [OF extract_needs_truthy])
  then have "truthy (JObj []) \<and> (\<exists>t \<in> set (strategy_texts '' {} ''). literal_parse t = Some (JObj []))"
    using ok by (rule mp)
  then have "truthy (JObj [])"
    by (rule conjunct1)
  with n p f fails ok show ?thesis by (intro conjI)
qed

section \<open>Verification: regular expressions\<close>

lemma rx_run_suffix:
  "(s', k') \<in> set (rx_run r s k) \<Longrightarrow> \<exists>p. s = p @ s'"
proof (induction r s k arbitrary: s' k' rule: rx_run.induct)
  case (1 s k)
  then show ?case by simp
next
  case (2 p s k)
  then show ?case by (auto split: list.splits if_splits)
next
  case (3 a b s k)
  from "3.prems" obtain s1 k1 where
    a: "(s1, k1) \<in> set (rx_run a s k)" and b: "(s', k') \<in> set (rx_run b s1 k1)"
    by auto
  from a obtain p where "s = p @ s1" using "3.IH"(1) by blast
  moreover from a b obtain q where "s1 = q @ s'" using "3.IH"(2) by blast
  ultimately have "s = (p @ q) @ s'" by simp
  then show ?case by blast
next
  case (4 a b s k)
  then show ?case by auto
next
  case (5 a s k)
  from "5.prems" consider "(s', k') = (s, k)"
    | s1 k1 where "(s1, k1) \<in> set (rx_run a s k)" "length s1 < length s"
        "(s', k') \<in> set (rx_run (Star a) s1 k1)"
    by (subst (asm) rx_run.simps) (auto split: if_splits)
  then show ?case
  proof cases
    case 1
    then show ?thesis by simp
  next
    case 2
    from 2(1) obtain p where "s = p @ s1" using "5.IH"(1) by blast
    moreover from 2 obtain q where "s1 = q @ s'" using "5.IH"(2) by blast
    ultimately have "s = (p @ q) @ s'" by simp
    then show ?thesis by blast
  qed
next
  case (6 a s k)
  from "6.prems" consider "(s', k') = (s, k)"
    | s1 k1 where "(s1, k1) \<in> set (rx_run a s k)" "length s1 < length s"
        "(s', k') \<in> set (rx_run (LazyStar a) s1 k1)"
    by (subst (asm) rx_run.simps) (auto split: if_splits)
  then show ?case
  proof cases
    case 1
    then show ?thesis by simp
  next
    case 2
    from 2(1) obtain p where "s = p @ s1" using "6.IH"(1) by blast
    moreover from 2 obtain q where "s1 = q @ s'" using "6.IH"(2) by blast
    ultimately have "s = (p @ q) @ s'" by simp
    then show ?thesis by blast
  qed
next
  case (7 n a s k)
  then show ?case by auto
qed

lemma rx_run_length:
  "(s', k') \<in> set (rx_run r s k) \<Longrightarrow> length s' \<le> length s"
  using rx_run_suffix by fastforce

lemma rx_run_literal_first:
  "(s', k') \<in> set (rx_run (Seq (Seq (Lit c) a) b) s k) \<Longrightarrow> length s' < length s"
proof -
  assume "(s', k') \<in> set (rx_run (Seq (Seq (Lit c) a) b) s k)"
  then obtain s1 k1 s2 k2 where
    l: "(s1, k1) \<in> set (rx_run (Lit c) s k)" and
    a: "(s2, k2) \<in> set (rx_run a s1 k1)" and
    b: "(s', k') \<in> set (rx_run b s2 k2)"
    by auto
  from l have "length s1 < length s"
    by (auto simp: Lit_def split: list.splits if_splits)
  moreover from a have "length s2 \<le> length s1" by (rule rx_run_length)
  moreover from b have "length s' \<le> length s2" by (rule rx_run_length)
  ultimately show ?thesis by simp
qed

lemma patterns_never_empty:
  "never_empty simple_parse_re" "never_empty simple_fill_re" "never_empty namedRe"
  "never_empty anonRe" "never_empty radioRe" "never_empty aiRe" "never_empty choice_fill_re"
  "never_empty fence_re"
  unfolding never_empty_def simple_parse_re_def simple_fill_re_def namedRe_def anonRe_def
    radioRe_def aiRe_def choice_fill_re_def fence_re_def Seqs.simps Str.simps
  by (intro allI impI, erule rx_run_literal_first)+

text \<open>What a successful search returns: the match starts at or after the offset the
  search started from, the text before it has no match, and the rest is what follows
  the matched text.\<close>

lemma rx_search_offset:
  "rx_search re s i = Some (m, rest) \<Longrightarrow>
   \<exists>j. index m = i + j \<and> j + length (matched m) \<le> length s
     \<and> matched m = take (length (matched m)) (drop j s)
     \<and> rest = drop (j + length (matched m)) s"
proof (induction s arbitrary: i)
  case Nil
  show ?case
  proof (cases "rx_run re [] []")
    case Nil
    with Nil.prems show ?thesis by (simp add: rx_search.simps)
  next
    case (Cons x xs)
    obtain r1 k1 where x: "x = (r1, k1)" by (cases x)
    with Cons have "(r1, k1) \<in> set (rx_run re [] [])" by simp
    then have "r1 = []" using rx_run_suffix by fastforce
    with Cons x Nil.prems show ?thesis
      by (auto simp: rx_search.simps)
  qed
next
  case (Cons c cs)
  show ?case
  proof (cases "rx_run re (c # cs) []")
    case Nil
    with Cons.prems have "rx_search re cs (Suc i) = Some (m, rest)"
      by (simp add: rx_search.simps)
    from Cons.IH [OF this] obtain j where
      j: "index m = Suc i + j" "j + length (matched m) \<le> length cs"
         "matched m = take (length (matched m)) (drop j cs)"
         "rest = drop (j + length (matched m)) cs"
      by blast
    then have "index m = i + Suc j \<and> Suc j + length (matched m) \<le> length (c # cs)
        \<and> matched m = take (length (matched m)) (drop (Suc j) (c # cs))
        \<and> rest = drop (Suc j + length (matched m)) (c # cs)"
      by simp
    then show ?thesis by blast
  next
    case (Cons x xs)
    obtain r1 k1 where x: "x = (r1, k1)" by (cases x)
    with Cons have "(r1, k1) \<in> set (rx_run re (c # cs) [])" by simp
    then obtain p where p: "c # cs = p @ r1" using rx_run_suffix by blast
    then have t: "take (length (c # cs) - length r1) (c # cs) = p"
      by simp
    from Cons x Cons.prems have "index m = i" "groups m = k1" "rest = r1"
      "matched m = take (length (c # cs) - length r1) (c # cs)"
      by (auto simp: rx_search.simps)
    with t p have "index m = i + 0 \<and> 0 + length (matched m) \<le> length (c # cs)
        \<and> matched m = take (length (matched m)) (drop 0 (c # cs))
        \<and> rest = drop (0 + length (matched m)) (c # cs)"
      by simp
    then show ?thesis by blast
  qed
qed

lemma rx_search_shape:
  "rx_search re s i = Some (m, rest) \<Longrightarrow>
   i \<le> index m \<and> index m - i + length (matched m) \<le> length s
   \<and> matched m = take (length (matched m)) (drop (index m - i) s)
   \<and> rest = drop (index m - i + length (matched m)) s"
  using rx_search_offset [of re s i m rest] by auto

lemma rx_search_progress:
  "never_empty re \<Longrightarrow> rx_search re s i = Some (m, rest) \<Longrightarrow>
   length rest < length s \<and> matched m \<noteq> []"
proof (induction s arbitrary: i)
  case Nil
  show ?case
  proof (cases "rx_run re [] []")
    case Nil
    with Nil.prems(2) show ?thesis by (simp add: rx_search.simps)
  next
    case (Cons x xs)
    obtain r1 k1 where "x = (r1, k1)" by (cases x)
    with Cons Nil.prems(1) have "length r1 < length ([] :: string)"
      unfolding never_empty_def by (metis list.set_intros(1))
    then show ?thesis by simp
  qed
next
  case (Cons c cs)
  show ?case
  proof (cases "rx_run re (c # cs) []")
    case Nil
    with Cons.prems have "rx_search re cs (Suc i) = Some (m, rest)"
      by (simp add: rx_search.simps)
    with Cons.IH Cons.prems(1) have "length rest < length cs \<and> matched m \<noteq> []"
      by blast
    then show ?thesis by simp
  next
    case (Cons x xs)
    obtain r1 k1 where x: "x = (r1, k1)" by (cases x)
    with Cons Cons.prems(1) have "length r1 < length (c # cs)"
      unfolding never_empty_def by (metis list.set_intros(1))
    with Cons x Cons.prems(2) show ?thesis
      by (auto simp: rx_search.simps)
  qed
qed

lemma exec_all_never_empty:
  "never_empty re \<Longrightarrow>
   exec_all re s i =
     (case rx_search re s i of
        None \<Rightarrow> []
      | Some (m, rest) \<Rightarrow> m # exec_all re rest (index m + length (matched m)))"
  by (subst exec_all.simps) (auto split: option.splits dest: rx_search_progress)

lemma replace_all_search:
  "never_empty re \<Longrightarrow>
   replace_all re f n s =
     (case rx_search re s i of
        None \<Rightarrow> s
      | Some (m, rest) \<Rightarrow> take (index m - i) s @ f n (groups m) @ replace_all re f (Suc n) rest)"
proof (induction s arbitrary: i)
  case Nil
  have "rx_run re [] [] = []"
  proof (cases "rx_run re [] []")
    case Nil
    then show ?thesis .
  next
    case (Cons x xs)
    obtain r1 k1 where "x = (r1, k1)" by (cases x)
    with Cons Nil have "length r1 < length ([] :: string)"
      unfolding never_empty_def by (metis list.set_intros(1))
    then show ?thesis by simp
  qed
  then show ?case
    by (subst replace_all.simps) (simp add: rx_search.simps)
next
  case (Cons c cs)
  show ?case
  proof (cases "rx_run re (c # cs) []")
    case Nil
    have step: "replace_all re f n (c # cs) = c # replace_all re f n cs"
      by (subst replace_all.simps) (simp add: Nil)
    have search: "rx_search re (c # cs) i = rx_search re cs (Suc i)"
      by (subst rx_search.simps) (simp add: Nil)
    show ?thesis
    proof (cases "rx_search re cs (Suc i)")
      case None
      with step search Cons.IH [OF Cons.prems, of "Suc i"] show ?thesis by simp
    next
      case (Some a)
      obtain m rest where a: "a = (m, rest)" by (cases a)
      with Some have "Suc i \<le> index m" using rx_search_shape by blast
      then have "take (index m - i) (c # cs) = c # take (index m - Suc i) cs"
        by (simp add: Suc_diff_le take_Cons')
      with step search Some a Cons.IH [OF Cons.prems, of "Suc i"] show ?thesis by simp
    qed
  next
    case (Cons x xs)
    obtain r1 k1 where x: "x = (r1, k1)" by (cases x)
    with Cons Cons.prems have "length r1 < length (c # cs)"
      unfolding never_empty_def by (metis list.set_intros(1))
    with Cons x show ?thesis
      by (subst replace_all.simps, subst rx_search.simps) simp
  qed
qed

lemma replace_all_splice:
  "never_empty re \<Longrightarrow> replace_all re f n s = splice (exec_all re s i) f n i s"
proof (induction "length s" arbitrary: s i n rule: less_induct)
  case less
  show ?case
  proof (cases "rx_search re s i")
    case None
    with less.prems show ?thesis
      by (simp add: replace_all_search [of re f n s i] exec_all_never_empty [of re s i])
  next
    case (Some a)
    obtain m rest where a: "a = (m, rest)" by (cases a)
    from Some a less.prems have "length rest < length s"
      using rx_search_progress by blast
    then have ih: "replace_all re f (Suc n) rest
        = splice (exec_all re rest (index m + length (matched m))) f (Suc n)
            (index m + length (matched m)) rest"
      using less.hyps less.prems by blast
    from Some a have "rest = drop (index m - i + length (matched m)) s"
      using rx_search_shape by blast
    with Some a ih less.prems show ?thesis
      by (simp add: replace_all_search [of re f n s i] exec_all_never_empty [of re s i])
  qed
qed

section \<open>Verification: Placeholder Scanner and Token Resolver\<close>

text \<open>
  C6 fails on the code. The template \<open>{{my name}}\<close> has no choice token and the simple
  name \<open>my name\<close>, which \<open>parsePlaceholders\<close> reports; \<open>fillPlaceholders\<close> only replaces
  names made of word characters, dots and hyphens, so with no selection and a value for
  \<open>my name\<close> the token is still there.
\<close>

theorem simple_name_with_space_not_filled:
  "parseChoicePlaceholders ''{{my name}}'' = []
   \<and> parsePlaceholders ''{{my name}}'' = [''my name'']
   \<and> fillPlaceholders (fillChoicePlaceholders ''{{my name}}'' []) [(''my name'', ''x'')]
       = ''{{my name}}''"
  by code_simp

text \<open>
  C7 (as amended). With no selection at all the template is returned as it is. With a
  non-empty list of selections, the result is the template with the matches of the
  choice pattern replaced in order: the \<open>i\<close>-th match by the \<open>i\<close>-th selection, and a
  match for which the list has no selection by the empty string, so that adding empty
  selections at the end changes nothing. The declared default plays no part.
\<close>

theorem shortfall_filled_with_empty:
  "fillChoicePlaceholders template [] = template
   \<and> (selectedValues \<noteq> [] \<longrightarrow>
        fillChoicePlaceholders template selectedValues
        = splice (exec_all choice_fill_re template 0)
            (\<lambda>i k. if i < length selectedValues then selectedValues ! i else []) 0 0 template
        \<and> fillChoicePlaceholders template (selectedValues @ replicate n [])
          = fillChoicePlaceholders template selectedValues)"
proof -
  have pad: "selected_or_empty (selectedValues @ replicate n []) i
      = selected_or_empty selectedValues i" for i
    by (simp add: selected_or_empty_def nth_append)
  have "replace_all choice_fill_re (\<lambda>i k. selected_or_empty selectedValues i) 0 template
      = splice (exec_all choice_fill_re template 0)
          (\<lambda>i k. selected_or_empty selectedValues i) 0 0 template"
    using patterns_never_empty(7) by (rule replace_all_splice)
  then show ?thesis
    by (simp add: fillChoicePlaceholders_def pad) (simp add: selected_or_empty_def)
qed

theorem shortfall_filled_with_empty_witness:
  "[''x''] \<noteq> []
   \<and> map (\<lambda>m. (index m, matched m)) (exec_all choice_fill_re ''{{a,b|a}}-{{c,d|c}}'' 0)
       = [(0, ''{{a,b|a}}''), (10, ''{{c,d|c}}'')]
   \<and> fillChoicePlaceholders ''{{a,b|a}}-{{c,d|c}}'' [''x''] = ''x-''
   \<and> fillChoicePlaceholders ''{{a,b|a}}-{{c,d|c}}'' ([''x''] @ replicate 1 []) = ''x-''"
proof -
  have ne: "[''x''] \<noteq> []"
    by simp
  have ms: "map (\<lambda>m. (index m, matched m)) (exec_all choice_fill_re ''{{a,b|a}}-{{c,d|c}}'' 0)
       = [(0, ''{{a,b|a}}''), (10, ''{{c,d|c}}'')]"
    by code_simp
  have one: "fillChoicePlaceholders ''{{a,b|a}}-{{c,d|c}}'' [''x''] = ''x-''"
    by code_simp
  have "[''x''] \<noteq> [] \<longrightarrow>
      fillChoicePlaceholders ''{{a,b|a}}-{{c,d|c}}'' [''x'']
        = splice (exec_all choice_fill_re ''{{a,b|a}}-{{c,d|c}}'' 0)
            (\<lambda>i k. if i < length [''x''] then [''x''] ! i else []) 0 0 ''{{a,b|a}}-{{c,d|c}}''
      \<and> fillChoicePlaceholders ''{{a,b|a}}-{{c,d|c}}'' ([''x''] @ replicate 1 [])
        = fillChoicePlaceholders ''{{a,b|a}}-{{c,d|c}}'' [''x'']"
    by (rule conjunct2 [OF shortfall_filled_with_empty])
  then have "fillChoicePlaceholders ''{{a,b|a}}-{{c,d|c}}'' ([''x''] @ replicate 1 [])
      = fillChoicePlaceholders ''{{a,b|a}}-{{c,d|c}}'' [''x'']"
    using ne by blast
  then have "fillChoicePlaceholders ''{{a,b|a}}-{{c,d|c}}'' ([''x''] @ replicate 1 []) = ''x-''"
    using one by (rule trans)
  with ne ms one show ?thesis by (intro conjI)
qed

text \<open>
  C7 as stated fails for the empty list: the template has one choice token, and with no
  selection the token is left in place, not replaced by the empty string.
\<close>

theorem empty_selection_counterexample:
  "length (parseChoicePlaceholders ''{{a,b|a}}'') = 1
   \<and> fillChoicePlaceholders ''{{a,b|a}}'' [] = ''{{a,b|a}}''"
  by code_simp

text \<open>
  C8 fails on the code. In \<open>{{a:x,y}}{{radio|{{a:x,y}}\<close> the named pattern matches at
  offsets 0 and 17, the radio pattern at offset 9 over 17 characters. The overlap test
  looks for the first occurrence of an accepted token's text, which is offset 0 for both
  named tokens, so the radio candidate is accepted although it contains the named token
  at offset 17.
\<close>

theorem overlap_test_misses_repeated_token:
  "map (\<lambda>m. (index m, length (matched m))) (exec_all namedRe ''{{a:x,y}}{{radio|{{a:x,y}}'' 0)
     = [(0, 9), (17, 9)]
   \<and> map (\<lambda>m. (index m, length (matched m))) (exec_all radioRe ''{{a:x,y}}{{radio|{{a:x,y}}'' 0)
     = [(9, 17)]
   \<and> map (\<lambda>t. (type t, raw t)) (parseChoicePlaceholders ''{{a:x,y}}{{radio|{{a:x,y}}'')
     = [(Choice, ''{{a:x,y}}''), (Choice, ''{{a:x,y}}''), (Radio, ''{{radio|{{a:x,y}}'')]"
  by code_simp


end
